theory Spec2Isabelle
  imports
    Main
    "HOL-Library.Char_ord"
    "HOL-Library.List_Lexorder"
    "HOL-Library.Product_Lexorder"
    "HOL-Library.Multiset"
begin

section \<open>Values, records and exceptions\<close>

text \<open>
  The program \<^verbatim>\<open>md.py\<close> works on the JSON objects of the search API: Python
  dictionaries with string keys. The fields it reads (\<^verbatim>\<open>title\<close>, \<^verbatim>\<open>topic\<close>, the
  \<^verbatim>\<open>url_*\<close> fields) hold a string or JSON \<^verbatim>\<open>null\<close>; the fields it writes
  (\<^verbatim>\<open>season\<close>, \<^verbatim>\<open>episode\<close>, \<^verbatim>\<open>video-type\<close>) hold a string or \<^verbatim>\<open>None\<close>.
  A character is a code point below 256.
\<close>

datatype pyval = PNone | PStr string

type_synonym video_info = "string \<rightharpoonup> pyval"

text \<open>The exceptions that leave a function of the program (\<^verbatim>\<open>exit(n)\<close> raises \<^verbatim>\<open>SystemExit\<close>).\<close>

datatype error = TypeError | ValueError | KeyError | EOFError | SystemExit nat

text \<open>\<^verbatim>\<open>d.get(k)\<close>, \<^verbatim>\<open>d.get(k, default)\<close> and \<^verbatim>\<open>d[k]\<close>.\<close>

definition dict_get :: "video_info \<Rightarrow> string \<Rightarrow> pyval" where
  "dict_get d k = (case d k of None \<Rightarrow> PNone | Some v \<Rightarrow> v)"

definition dict_get_default :: "video_info \<Rightarrow> string \<Rightarrow> pyval \<Rightarrow> pyval" where
  "dict_get_default d k dflt = (case d k of None \<Rightarrow> dflt | Some v \<Rightarrow> v)"

definition dict_item :: "video_info \<Rightarrow> string \<Rightarrow> error + pyval" where
  "dict_item d k = (case d k of None \<Rightarrow> Inl KeyError | Some v \<Rightarrow> Inr v)"

text \<open>Truth value of an object: \<^verbatim>\<open>None\<close> and the empty string are false.\<close>

fun truthy :: "pyval \<Rightarrow> bool" where
  "truthy PNone = False"
| "truthy (PStr s) = (s \<noteq> [])"

section \<open>Character classes and \<^verbatim>\<open>int(str)\<close>\<close>

definition is_digit :: "char \<Rightarrow> bool" where
  "is_digit c = (CHR ''0'' \<le> c \<and> c \<le> CHR ''9'')"

definition is_alnum :: "char \<Rightarrow> bool" where
  "is_alnum c = ((CHR ''a'' \<le> c \<and> c \<le> CHR ''z'') \<or> (CHR ''A'' \<le> c \<and> c \<le> CHR ''Z'')
                 \<or> (CHR ''0'' \<le> c \<and> c \<le> CHR ''9''))"

text \<open>
  The white space that \<^verbatim>\<open>int\<close> skips around a literal, below code point 256: tab to
  carriage return, space, next line and no-break space. The separators 28 to 31, which
  \<^verbatim>\<open>str.isspace\<close> also accepts, are not skipped.
\<close>

definition is_int_space :: "char \<Rightarrow> bool" where
  "is_int_space c = (let n = (of_char c :: nat) in
                       (9 \<le> n \<and> n \<le> 13) \<or> n = 32 \<or> n = 133 \<or> n = 160)"

definition digit_val :: "char \<Rightarrow> nat" where
  "digit_val c = of_char c - 48"

definition strip :: "string \<Rightarrow> string" where
  "strip s = rev (dropWhile is_int_space (rev (dropWhile is_int_space s)))"

text \<open>
  The digits of an integer literal after its first digit: decimal digits, with single
  underscores allowed between two digits.
\<close>

fun int_digits :: "nat \<Rightarrow> string \<Rightarrow> nat option" where
  "int_digits acc [] = Some acc"
| "int_digits acc [c] = (if is_digit c then Some (acc * 10 + digit_val c) else None)"
| "int_digits acc (c # d # cs) =
     (if is_digit c then int_digits (acc * 10 + digit_val c) (d # cs)
      else if c = CHR ''_'' \<and> is_digit d then int_digits acc (d # cs)
      else None)"

text \<open>
  The interpreter refuses a literal of more than 4300 digits (its default for
  \<^verbatim>\<open>sys.get_int_max_str_digits()\<close>, which the program does not change); underscores and the
  sign do not count, leading zeros do.
\<close>

definition max_str_digits :: nat where
  "max_str_digits = 4300"

definition int_body :: "string \<Rightarrow> nat option" where
  "int_body s = (case s of [] \<Rightarrow> None
                 | c # cs \<Rightarrow> if is_digit c \<and> length (filter is_digit s) \<le> max_str_digits
                             then int_digits (digit_val c) cs else None)"

text \<open>
  \<^verbatim>\<open>int(s)\<close> for a string: white space around the literal is dropped, a sign may come
  first. \<open>None\<close> stands for the \<^verbatim>\<open>ValueError\<close>; each caller says what it does with it.
\<close>

definition py_int :: "string \<Rightarrow> int option" where
  "py_int s = (case strip s of [] \<Rightarrow> None
               | c # cs \<Rightarrow>
                   if c = CHR ''-'' then map_option (\<lambda>n. - int n) (int_body cs)
                   else if c = CHR ''+'' then map_option int (int_body cs)
                   else map_option int (int_body (c # cs)))"

text \<open>
  In the words of the language reference: \<^verbatim>\<open>int\<close> accepts a string that is an integer
  literal in base 10, which may be preceded by a sign with no space in between, may have
  leading zeros, may be surrounded by white space and may have single underscores between
  digits. \<open>nat_of_digits\<close> is the number that a string of decimal digits denotes,
  \<open>digit_groups\<close> says that a string is made of digits with single underscores between
  them, and \<open>int_literal s n\<close> that \<open>s\<close> is such a literal, within the limit on its
  digits, and denotes \<open>n\<close>.
\<close>

definition nat_of_digits :: "string \<Rightarrow> nat" where
  "nat_of_digits p = foldl (\<lambda>a c. 10 * a + digit_val c) 0 p"

definition digit_groups :: "string \<Rightarrow> bool" where
  "digit_groups b \<longleftrightarrow>
     b \<noteq> [] \<and> list_all (\<lambda>c. is_digit c \<or> c = CHR ''_'') b
     \<and> is_digit (hd b) \<and> is_digit (last b) \<and> (\<forall>p q. b \<noteq> p @ ''__'' @ q)"

definition int_literal :: "string \<Rightarrow> int \<Rightarrow> bool" where
  "int_literal s n \<longleftrightarrow>
     (\<exists>l sg b r. s = l @ sg @ b @ r
        \<and> list_all is_int_space l \<and> list_all is_int_space r
        \<and> (sg = [] \<or> sg = ''+'' \<or> sg = ''-'')
        \<and> digit_groups b \<and> length (filter is_digit b) \<le> max_str_digits
        \<and> n = (if sg = ''-'' then - int (nat_of_digits (filter is_digit b))
                else int (nat_of_digits (filter is_digit b))))"

text \<open>Two notions for the proofs about \<open>int_digits\<close>: a doubled underscore, and what may follow a digit.\<close>

definition has_dd :: "string \<Rightarrow> bool" where
  "has_dd cs \<longleftrightarrow> (\<exists>p q. cs = p @ ''__'' @ q)"

definition tail_ok :: "string \<Rightarrow> bool" where
  "tail_ok cs \<longleftrightarrow> list_all (\<lambda>c. is_digit c \<or> c = CHR ''_'') cs
                 \<and> (cs \<noteq> [] \<longrightarrow> is_digit (last cs)) \<and> \<not> has_dd cs"

section \<open>Quality resolver\<close>

text \<open>
  \<^verbatim>\<open>re.search(r"\.([a-zA-Z0-9]+)(?:$)", s)\<close>: \<open>match_ext\<close> tries the pattern at the head
  of the string, \<open>search_ext\<close> moves the start from left to right; the result is group 1.
  The greedy group takes the longest run of letters and digits; a shorter run is followed
  by a letter or digit, where \<^verbatim>\<open>$\<close> cannot match. \<^verbatim>\<open>$\<close> matches at the end of the
  string and before a newline that ends the string.
\<close>

definition match_ext :: "string \<Rightarrow> string option" where
  "match_ext s = (case s of [] \<Rightarrow> None
                  | c # cs \<Rightarrow>
                      if c = CHR ''.'' \<and> takeWhile is_alnum cs \<noteq> []
                         \<and> (dropWhile is_alnum cs = [] \<or> dropWhile is_alnum cs = [CHR 0x0A])
                      then Some (takeWhile is_alnum cs) else None)"

fun search_ext :: "string \<Rightarrow> string option" where
  "search_ext [] = match_ext []"
| "search_ext (c # cs) =
     (case match_ext (c # cs) of Some g \<Rightarrow> Some g | None \<Rightarrow> search_ext cs)"

definition quality_map :: "string \<rightharpoonup> string" where
  "quality_map = [''low'' \<mapsto> ''url_video_low'', ''medium'' \<mapsto> ''url_video'',
                  ''hd'' \<mapsto> ''url_video_hd'']"

text \<open>
  The fallback loop \<^verbatim>\<open>for q in [...]: video_url = video_info.get(q); if video_url: break\<close>.
  The loop variable keeps the value of the last field read when no field is true.
\<close>

fun fallback :: "video_info \<Rightarrow> string list \<Rightarrow> pyval \<Rightarrow> pyval" where
  "fallback video_info [] video_url = video_url"
| "fallback video_info (q # qs) video_url =
     (let u = dict_get video_info q in if truthy u then u else fallback video_info qs u)"

definition file_extension_of :: "string \<Rightarrow> pyval \<Rightarrow> string" where
  "file_extension_of dflt video_url =
     (case video_url of
        PNone \<Rightarrow> dflt
      | PStr u \<Rightarrow> if u = [] then dflt
                  else (case search_ext u of Some g \<Rightarrow> CHR ''.'' # g | None \<Rightarrow> dflt))"

definition get_video_url_by_quality :: "video_info \<Rightarrow> string \<Rightarrow> pyval \<times> string" where
  "get_video_url_by_quality video_info quality =
     (let quality = (if quality_map quality = None then ''medium'' else quality);
          url_key = the (quality_map quality);
          video_url = dict_get video_info url_key;
          video_url = (if \<not> truthy video_url
                       then fallback video_info [''url_video_hd'', ''url_video'', ''url_video_low'']
                              video_url
                       else video_url)
      in (video_url, file_extension_of ''.mp4'' video_url))"

section \<open>Result paginator\<close>

text \<open>
  The request body \<^verbatim>\<open>query_json\<close> of one call, and what the loop reads from a response:
  \<^verbatim>\<open>response.status_code\<close> and the value of
  \<^verbatim>\<open>response.json().get("result", {}).get("results", [])\<close>.
\<close>

record query_json =
  query_fields :: "string list option"
  query :: string
  sortBy :: string
  sortOrder :: string
  future :: bool
  offset :: nat
  page_size :: nat

record response =
  status_code :: int
  results :: "video_info list"

definition make_query_json :: "string \<Rightarrow> bool \<Rightarrow> bool \<Rightarrow> bool \<Rightarrow> nat \<Rightarrow> query_json" where
  "make_query_json q use_title_field use_topic_field include_future_content off =
     \<lparr> query_fields = (if use_title_field \<and> use_topic_field then Some [''title'', ''topic'']
                 else if use_title_field then Some [''title'']
                 else if use_topic_field then Some [''topic'']
                 else None),
       query = q, sortBy = ''timestamp'', sortOrder = ''desc'',
       future = include_future_content, offset = off, page_size = 100 \<rparr>"

text \<open>
  The \<^verbatim>\<open>while True\<close> loop of \<^verbatim>\<open>query_api\<close>. The transport is outside the program: \<open>post n req\<close>
  is the response to the \<open>n\<close>-th call of \<^verbatim>\<open>requests.post\<close>, made with the body \<open>req\<close>.
  The loop has no bound of its own, so not returning is the value \<open>None\<close>.
\<close>

partial_function (option) query_loop ::
  "(nat \<Rightarrow> query_json \<Rightarrow> response) \<Rightarrow> (nat \<Rightarrow> query_json) \<Rightarrow> nat \<Rightarrow> nat \<Rightarrow> video_info list
     \<Rightarrow> video_info list option" where
  "query_loop post mk n off all_results =
     (if status_code (post n (mk off)) \<noteq> 200 then Some all_results
      else if results (post n (mk off)) = [] then Some all_results
      else query_loop post mk (n + 1) (off + 100) (all_results @ results (post n (mk off))))"

definition query_api ::
  "(nat \<Rightarrow> query_json \<Rightarrow> response) \<Rightarrow> string \<Rightarrow> bool \<Rightarrow> bool \<Rightarrow> bool \<Rightarrow> video_info list option" where
  "query_api post q use_title_field use_topic_field include_future_content =
     query_loop post (make_query_json q use_title_field use_topic_field include_future_content)
       0 0 []"

text \<open>The response to request \<open>i\<close> of \<^verbatim>\<open>query_api\<close>, sent with offset \<open>100 * i\<close>.\<close>

definition nth_page ::
  "(nat \<Rightarrow> query_json \<Rightarrow> response) \<Rightarrow> string \<Rightarrow> bool \<Rightarrow> bool \<Rightarrow> bool \<Rightarrow> nat \<Rightarrow> response" where
  "nth_page post q use_title_field use_topic_field include_future_content i =
     post i (make_query_json q use_title_field use_topic_field include_future_content (100 * i))"

section \<open>Topic disambiguator\<close>

text \<open>The first loop of \<^verbatim>\<open>select_topic\<close>: the set of the true \<^verbatim>\<open>topic\<close> values.\<close>

definition collect_topics :: "video_info list \<Rightarrow> string set" where
  "collect_topics all_results =
     fold (\<lambda>video_info topics.
             case dict_get video_info ''topic'' of
               PNone \<Rightarrow> topics
             | PStr topic \<Rightarrow> if topic \<noteq> [] then insert topic topics else topics)
          all_results {}"

text \<open>
  The prompt loop of \<^verbatim>\<open>select_topic\<close>. Standard input is the list of the lines still to be
  read; \<^verbatim>\<open>input\<close> at the end of input raises \<^verbatim>\<open>EOFError\<close>. The result is the chosen
  topic and the lines left.
\<close>

fun topic_prompt :: "string list \<Rightarrow> string list \<Rightarrow> error + (string \<times> string list)" where
  "topic_prompt topics [] = Inl EOFError"
| "topic_prompt topics (line # stdin) =
     (case py_int line of
        None \<Rightarrow> topic_prompt topics stdin
      | Some choice \<Rightarrow>
          if 1 \<le> choice \<and> choice \<le> int (length topics)
          then Inr (topics ! nat (choice - 1), stdin)
          else topic_prompt topics stdin)"

text \<open>\<^verbatim>\<open>topics = sorted(topics)\<close>: strings compare by code point, a prefix first.\<close>

definition sorted_topics :: "video_info list \<Rightarrow> string list" where
  "sorted_topics all_results = sorted_list_of_set (collect_topics all_results)"

definition select_topic ::
  "video_info list \<Rightarrow> string list \<Rightarrow> error + ((video_info list \<times> pyval) \<times> string list)" where
  "select_topic all_results stdin =
     (let topics = sorted_topics all_results in
      if length topics > 1 then
        (case topic_prompt topics stdin of
           Inl e \<Rightarrow> Inl e
         | Inr (selected_topic, stdin') \<Rightarrow>
             Inr ((filter (\<lambda>v. dict_get v ''topic'' = PStr selected_topic) all_results,
                   PStr selected_topic), stdin'))
      else if length topics = 1 then Inr ((all_results, PStr (topics ! 0)), stdin)
      else Inr (([], PNone), stdin))"

section \<open>Season and episode\<close>

text \<open>
  \<^verbatim>\<open>re.search(r"S(\d+)\/E(\d+)", title)\<close>: \<open>match_SE\<close> tries the pattern at the head of
  the string and gives the two groups, \<open>search_SE\<close> moves the start from left to right.
  Each group is greedy: after a shorter run of digits comes a digit, which is not the
  \<^verbatim>\<open>/\<close> the pattern needs, and the second group ends the pattern. Below code point 256
  the class \<^verbatim>\<open>\d\<close> is \<^verbatim>\<open>[0-9]\<close>, so the pattern \<^verbatim>\<open>S[0-9]+\/E[0-9]+\<close> of
  \<^verbatim>\<open>update_video_type\<close> matches the same titles.
\<close>

definition match_SE :: "string \<Rightarrow> (string \<times> string) option" where
  "match_SE s =
     (case s of
        [] \<Rightarrow> None
      | c # cs \<Rightarrow>
          if c = CHR ''S'' \<and> takeWhile is_digit cs \<noteq> [] then
            (case dropWhile is_digit cs of
               a # b # r \<Rightarrow>
                 if a = CHR ''/'' \<and> b = CHR ''E'' \<and> takeWhile is_digit r \<noteq> []
                 then Some (takeWhile is_digit cs, takeWhile is_digit r)
                 else None
             | _ \<Rightarrow> None)
          else None)"

fun search_SE :: "string \<Rightarrow> (string \<times> string) option" where
  "search_SE [] = None"
| "search_SE (c # cs) =
     (case match_SE (c # cs) of Some g \<Rightarrow> Some g | None \<Rightarrow> search_SE cs)"

text \<open>
  What the claims call a match, in the words of the specification: the title has, at
  offset \<open>i\<close>, the letter \<^verbatim>\<open>S\<close>, a non-empty string \<open>s\<close> of digits, the two
  characters \<^verbatim>\<open>/E\<close> and a non-empty string \<open>e\<close> of digits. This is membership in the
  language of the pattern, with no choice between matches made yet.
\<close>

definition SE_match_at :: "string \<Rightarrow> nat \<Rightarrow> string \<Rightarrow> string \<Rightarrow> bool" where
  "SE_match_at title i s e \<longleftrightarrow>
     s \<noteq> [] \<and> e \<noteq> [] \<and> list_all is_digit s \<and> list_all is_digit e
     \<and> take (length s + length e + 3) (drop i title) = ''S'' @ s @ ''/E'' @ e"

text \<open>The string that \<^verbatim>\<open>video_info.get("title", "")\<close> gives for a title that is not \<^verbatim>\<open>None\<close>.\<close>

definition title_text :: "video_info \<Rightarrow> string" where
  "title_text video_info = (case video_info ''title'' of Some (PStr t) \<Rightarrow> t | _ \<Rightarrow> [])"

text \<open>\<^verbatim>\<open>re.search\<close> on \<^verbatim>\<open>video_info.get("title", "")\<close>; a title that is \<^verbatim>\<open>None\<close> raises.\<close>

definition title_search :: "video_info \<Rightarrow> error + (string \<times> string) option" where
  "title_search video_info =
     (case dict_get_default video_info ''title'' (PStr []) of
        PNone \<Rightarrow> Inl TypeError
      | PStr title \<Rightarrow> Inr (search_SE title))"

fun determine_season_and_episode :: "video_info list \<Rightarrow> error + video_info list" where
  "determine_season_and_episode [] = Inr []"
| "determine_season_and_episode (video_info # rest) =
     (case title_search video_info of
        Inl e \<Rightarrow> Inl e
      | Inr m \<Rightarrow>
          (case determine_season_and_episode rest of
             Inl e \<Rightarrow> Inl e
           | Inr rest' \<Rightarrow>
               Inr ((case m of
                       Some (s, e) \<Rightarrow> video_info(''season'' \<mapsto> PStr s, ''episode'' \<mapsto> PStr e)
                     | None \<Rightarrow> video_info(''season'' \<mapsto> PNone, ''episode'' \<mapsto> PNone))
                    # rest')))"

definition VIDEO_TYPE_EPISODE :: string where
  "VIDEO_TYPE_EPISODE = ''episode''"

definition VIDEO_TYPE_MOVIE :: string where
  "VIDEO_TYPE_MOVIE = ''movie''"

fun update_video_type :: "video_info list \<Rightarrow> error + video_info list" where
  "update_video_type [] = Inr []"
| "update_video_type (video_info # rest) =
     (case title_search video_info of
        Inl e \<Rightarrow> Inl e
      | Inr m \<Rightarrow>
          (case update_video_type rest of
             Inl e \<Rightarrow> Inl e
           | Inr rest' \<Rightarrow>
               Inr ((if m \<noteq> None then video_info(''video-type'' \<mapsto> PStr VIDEO_TYPE_EPISODE)
                     else video_info(''video-type'' \<mapsto> PStr VIDEO_TYPE_MOVIE))
                    # rest')))"

definition valueOrElse :: "pyval \<Rightarrow> int \<Rightarrow> int" where
  "valueOrElse v dflt =
     (case v of
        PNone \<Rightarrow> dflt
      | PStr s \<Rightarrow> (case py_int s of Some n \<Rightarrow> n | None \<Rightarrow> dflt))"

text \<open>The key function of the sort; \<^verbatim>\<open>x["season"]\<close> raises when the key is missing.\<close>

definition season_episode_key :: "video_info \<Rightarrow> int \<times> int" where
  "season_episode_key x =
     (valueOrElse (dict_get x ''season'') 0, valueOrElse (dict_get x ''episode'') 0)"

text \<open>
  \<^verbatim>\<open>sorted(seasons, key=...)\<close> computes every key, then sorts stably on the keys, which
  are pairs of integers compared lexicographically.
\<close>

definition sort_seasons_by_season_and_episode :: "video_info list \<Rightarrow> error + video_info list" where
  "sort_seasons_by_season_and_episode seasons =
     (if \<forall>x \<in> set seasons. x ''season'' \<noteq> None \<and> x ''episode'' \<noteq> None
      then Inr (sort_key season_episode_key seasons)
      else Inl KeyError)"

section \<open>Season selection\<close>

text \<open>
  The dictionary \<^verbatim>\<open>seasons\<close> keeps its keys in insertion order, which \<^verbatim>\<open>seasons.values()\<close>
  follows: an association list. \<open>season_append\<close> is the body of the grouping loop.
\<close>

fun season_append ::
  "pyval \<Rightarrow> video_info \<Rightarrow> (pyval \<times> video_info list) list \<Rightarrow> (pyval \<times> video_info list) list" where
  "season_append k v [] = [(k, [v])]"
| "season_append k v ((k', vs) # rest) =
     (if k' = k then (k', vs @ [v]) # rest else (k', vs) # season_append k v rest)"

fun group_seasons ::
  "video_info list \<Rightarrow> (pyval \<times> video_info list) list \<Rightarrow> error + (pyval \<times> video_info list) list" where
  "group_seasons [] seasons = Inr seasons"
| "group_seasons (video_info # rest) seasons =
     (case dict_item video_info ''season'' of
        Inl e \<Rightarrow> Inl e
      | Inr k \<Rightarrow> group_seasons rest (season_append k video_info seasons))"

text \<open>\<^verbatim>\<open>str.lower\<close> below code point 256.\<close>

definition lower_char :: "char \<Rightarrow> char" where
  "lower_char c =
     (let n = (of_char c :: nat) in
      if (65 \<le> n \<and> n \<le> 90) \<or> (192 \<le> n \<and> n \<le> 222 \<and> n \<noteq> 215) then char_of (n + 32) else c)"

text \<open>
  The prompt of \<^verbatim>\<open>select_season\<close>. It stands in a \<^verbatim>\<open>while True\<close> loop, but every branch
  of the body returns or calls \<^verbatim>\<open>exit(1)\<close>, so one line is read.
\<close>

fun season_prompt ::
  "(pyval \<times> video_info list) list \<Rightarrow> string list \<Rightarrow> error + (video_info list \<times> string list)" where
  "season_prompt seasons [] = Inl EOFError"
| "season_prompt seasons (choice # stdin) =
     (if choice = [] \<or> map lower_char choice = ''y'' then Inr (concat (map snd seasons), stdin)
      else
        (case py_int choice of
           None \<Rightarrow> Inl (SystemExit 1)
         | Some n \<Rightarrow>
             if 1 \<le> n \<and> n \<le> int (length seasons) then
               (let selected_season =
                      sort_key (\<lambda>s. valueOrElse s 0) (map fst seasons) ! nat (n - 1)
                in case map_of seasons selected_season of
                     None \<Rightarrow> Inl KeyError
                   | Some vs \<Rightarrow> Inr (vs, stdin))
             else Inl (SystemExit 1)))"

definition select_season ::
  "video_info list \<Rightarrow> string list \<Rightarrow> error + (video_info list \<times> string list)" where
  "select_season rs stdin =
     (case determine_season_and_episode rs of
        Inl e \<Rightarrow> Inl e
      | Inr rs1 \<Rightarrow>
          (case sort_seasons_by_season_and_episode rs1 of
             Inl e \<Rightarrow> Inl e
           | Inr rs2 \<Rightarrow>
               (case group_seasons rs2 [] of
                  Inl e \<Rightarrow> Inl e
                | Inr seasons \<Rightarrow>
                    if length seasons = 0 then Inr ([], stdin)
                    else season_prompt seasons stdin)))"

section \<open>File names\<close>

text \<open>\<^verbatim>\<open>int(x)\<close> outside a \<^verbatim>\<open>try\<close>.\<close>

definition int_of_pyval :: "pyval \<Rightarrow> error + int" where
  "int_of_pyval x =
     (case x of
        PNone \<Rightarrow> Inl TypeError
      | PStr s \<Rightarrow> (case py_int s of None \<Rightarrow> Inl ValueError | Some n \<Rightarrow> Inr n))"

text \<open>The decimal digits of a natural number, and the format \<^verbatim>\<open>{n:02d}\<close>.\<close>

fun dec :: "nat \<Rightarrow> string" where
  "dec n = (if n < 10 then [char_of (48 + n)] else dec (n div 10) @ [char_of (48 + n mod 10)])"

declare dec.simps [simp del]

definition format_02d :: "int \<Rightarrow> string" where
  "format_02d n =
     (if n < 0 then CHR ''-'' # dec (nat (- n))
      else replicate (2 - length (dec (nat n))) (CHR ''0'') @ dec (nat n))"


text \<open>
  The name \<^verbatim>\<open>filename_video\<close> that the body of the loop of \<^verbatim>\<open>download_all_videos\<close>
  computes for one record; \<^verbatim>\<open>title\<close> is the topic that \<^verbatim>\<open>select_topic\<close> returned.
\<close>

definition filename_video :: "video_info \<Rightarrow> string \<Rightarrow> string \<Rightarrow> error + string" where
  "filename_video video_info title quality =
     (let file_extension = snd (get_video_url_by_quality video_info quality);
          filename_base = title
      in case dict_item video_info ''video-type'' of
           Inl e \<Rightarrow> Inl e
         | Inr vt \<Rightarrow>
             if vt = PStr VIDEO_TYPE_EPISODE then
               (case dict_item video_info ''season'' of
                  Inl e \<Rightarrow> Inl e
                | Inr s \<Rightarrow>
                    (case int_of_pyval s of
                       Inl e \<Rightarrow> Inl e
                     | Inr sn \<Rightarrow>
                         (case dict_item video_info ''episode'' of
                            Inl e \<Rightarrow> Inl e
                          | Inr ep \<Rightarrow>
                              (case int_of_pyval ep of
                                 Inl e \<Rightarrow> Inl e
                               | Inr en \<Rightarrow>
                                   Inr (filename_base @ '' '' @ ''S'' @ format_02d sn @ ''E''
                                        @ format_02d en @ file_extension)))))
             else Inr (filename_base @ file_extension))"

section \<open>Properties of \<^verbatim>\<open>int\<close>\<close>

lemma has_dd_Nil: "\<not> has_dd []"
  by (simp add: has_dd_def)

lemma has_dd_single: "\<not> has_dd [c]"
  by (auto simp: has_dd_def append_eq_Cons_conv Cons_eq_append_conv)

lemma has_dd_Cons2:
  "has_dd (c # d # cs) \<longleftrightarrow> (c = CHR ''_'' \<and> d = CHR ''_'') \<or> has_dd (d # cs)"
proof
  assume "has_dd (c # d # cs)"
  then obtain p q where e: "c # d # cs = p @ ''__'' @ q" by (auto simp: has_dd_def)
  show "(c = CHR ''_'' \<and> d = CHR ''_'') \<or> has_dd (d # cs)"
  proof (cases p)
    case Nil
    with e show ?thesis by simp
  next
    case (Cons a p')
    with e have "d # cs = p' @ ''__'' @ q" by simp
    then show ?thesis by (auto simp: has_dd_def)
  qed
next
  assume "(c = CHR ''_'' \<and> d = CHR ''_'') \<or> has_dd (d # cs)"
  then show "has_dd (c # d # cs)"
  proof
    assume "c = CHR ''_'' \<and> d = CHR ''_''"
    then have "c # d # cs = [] @ ''__'' @ cs" by simp
    then show ?thesis unfolding has_dd_def by blast
  next
    assume "has_dd (d # cs)"
    then obtain p q where "d # cs = p @ ''__'' @ q" by (auto simp: has_dd_def)
    then have "c # d # cs = (c # p) @ ''__'' @ q" by simp
    then show ?thesis unfolding has_dd_def by blast
  qed
qed

lemma underscore_not_digit: "\<not> is_digit CHR ''_''"
  by (simp add: is_digit_def)

lemma int_digits_iff:
  "int_digits acc cs = Some m \<longleftrightarrow>
     tail_ok cs \<and> m = foldl (\<lambda>a c. 10 * a + digit_val c) acc (filter is_digit cs)"
proof (induction acc cs arbitrary: m rule: int_digits.induct)
  case (1 acc)
  show ?case by (auto simp: tail_ok_def has_dd_Nil)
next
  case (2 acc c)
  show ?case by (auto simp: tail_ok_def has_dd_single underscore_not_digit)
next
  case (3 acc c d cs)
  show ?case
  proof (cases "is_digit c")
    case True
    then have c: "c \<noteq> CHR ''_''" using underscore_not_digit by auto
    from True c have t: "tail_ok (c # d # cs) = tail_ok (d # cs)"
      by (simp add: tail_ok_def has_dd_Cons2)
    from True 3(1) [of m] show ?thesis
      by (simp add: t mult.commute)
  next
    case False
    show ?thesis
    proof (cases "c = CHR ''_'' \<and> is_digit d")
      case True
      then have d: "d \<noteq> CHR ''_''" using underscore_not_digit by auto
      from True d have t: "tail_ok (c # d # cs) = tail_ok (d # cs)"
        by (simp add: tail_ok_def has_dd_Cons2)
      from True False 3(2) [of m] t show ?thesis
        by auto
    next
      case nd: False
      have "\<not> tail_ok (c # d # cs)"
        using False nd by (auto simp: tail_ok_def has_dd_Cons2)
      with False nd show ?thesis by auto
    qed
  qed
qed

lemma has_dd_Cons_digit: "c \<noteq> CHR ''_'' \<Longrightarrow> has_dd (c # cs) = has_dd cs"
  by (cases cs) (simp_all add: has_dd_Nil has_dd_single has_dd_Cons2)

lemma digit_groups_Cons:
  "digit_groups (c # cs) \<longleftrightarrow> is_digit c \<and> tail_ok cs"
proof (cases "is_digit c")
  case True
  then have "c \<noteq> CHR ''_''" using underscore_not_digit by auto
  then have "has_dd (c # cs) = has_dd cs" by (rule has_dd_Cons_digit)
  then have "(\<forall>p q. c # cs \<noteq> p @ ''__'' @ q) = (\<not> has_dd cs)"
    by (auto simp: has_dd_def)
  with True show ?thesis
    by (auto simp: digit_groups_def tail_ok_def)
next
  case False
  then show ?thesis by (simp add: digit_groups_def)
qed

lemma int_body_iff:
  "int_body b = Some m \<longleftrightarrow>
     digit_groups b \<and> length (filter is_digit b) \<le> max_str_digits
     \<and> m = nat_of_digits (filter is_digit b)"
proof (cases b)
  case Nil
  then show ?thesis by (simp add: int_body_def digit_groups_def)
next
  case (Cons c cs)
  show ?thesis
  proof (cases "is_digit c")
    case True
    have "foldl (\<lambda>a c. 10 * a + digit_val c) 0 (c # filter is_digit cs)
          = foldl (\<lambda>a c. 10 * a + digit_val c) (digit_val c) (filter is_digit cs)"
      by simp
    with True show ?thesis
      by (auto simp: int_body_def Cons digit_groups_Cons int_digits_iff nat_of_digits_def)
  next
    case False
    then show ?thesis by (simp add: int_body_def Cons digit_groups_Cons)
  qed
qed

lemma dropWhile_keep: "xs \<noteq> [] \<Longrightarrow> \<not> P (hd xs) \<Longrightarrow> dropWhile P xs = xs"
  by (cases xs) auto

lemma takeWhile_list_all: "list_all P (takeWhile P xs)"
  by (induction xs) auto

lemma strip_decomp:
  "\<exists>l r. s = l @ strip s @ r \<and> list_all is_int_space l \<and> list_all is_int_space r"
proof -
  let ?u = "dropWhile is_int_space s"
  have "strip s @ rev (takeWhile is_int_space (rev ?u))
        = rev (takeWhile is_int_space (rev ?u) @ dropWhile is_int_space (rev ?u))"
    by (simp only: strip_def rev_append)
  also have "\<dots> = rev (rev ?u)" by (simp only: takeWhile_dropWhile_id)
  also have "\<dots> = ?u" by simp
  finally have u: "?u = strip s @ rev (takeWhile is_int_space (rev ?u))" by simp
  have "s = takeWhile is_int_space s @ ?u" by simp
  with u have "s = takeWhile is_int_space s @ strip s @ rev (takeWhile is_int_space (rev ?u))"
    by simp
  moreover have "list_all is_int_space (takeWhile is_int_space s)"
    by (rule takeWhile_list_all)
  moreover have "list_all is_int_space (rev (takeWhile is_int_space (rev ?u)))"
    using takeWhile_list_all [of is_int_space "rev ?u"] by (simp add: list_all_iff)
  ultimately show ?thesis by blast
qed

lemma strip_core:
  assumes "list_all is_int_space l" "list_all is_int_space r" "core \<noteq> []"
    and "\<not> is_int_space (hd core)" "\<not> is_int_space (last core)"
  shows "strip (l @ core @ r) = core"
proof -
  have "dropWhile is_int_space (l @ core @ r) = dropWhile is_int_space (core @ r)"
    using assms(1) by (intro dropWhile_append2) (simp add: list_all_iff)
  also have "\<dots> = core @ r"
    using assms(3,4) by (intro dropWhile_keep) simp_all
  finally have a: "dropWhile is_int_space (l @ core @ r) = core @ r" .
  have "dropWhile is_int_space (rev r @ rev core) = dropWhile is_int_space (rev core)"
    using assms(2) by (intro dropWhile_append2) (simp add: list_all_iff)
  also have "\<dots> = rev core"
    using assms(3,5) by (intro dropWhile_keep) (simp_all add: hd_rev)
  finally show ?thesis by (simp add: strip_def a)
qed

lemma digit_not_space: "is_digit c \<Longrightarrow> \<not> is_int_space c"
  by (simp add: is_digit_def less_eq_char_def is_int_space_def Let_def)

lemma sign_not_space: "\<not> is_int_space CHR ''-''" "\<not> is_int_space CHR ''+''"
  by (simp_all add: is_int_space_def)

lemma sign_not_digit: "\<not> is_digit CHR ''-''" "\<not> is_digit CHR ''+''"
  by (simp_all add: is_digit_def)

lemma py_int_literal:
  assumes "py_int s = Some n"
  shows "int_literal s n"
proof -
  from strip_decomp [of s] obtain l r where
    s: "s = l @ strip s @ r" and l: "list_all is_int_space l" and r: "list_all is_int_space r"
    by blast
  from assms obtain c cs where core: "strip s = c # cs"
    by (cases "strip s") (auto simp: py_int_def)
  consider (minus) "c = CHR ''-''" | (plus) "c = CHR ''+''" | (none) "c \<noteq> CHR ''-''" "c \<noteq> CHR ''+''"
    by blast
  then show ?thesis
  proof cases
    case minus
    with assms core obtain m where m: "int_body cs = Some m" and n: "n = - int m"
      by (auto simp: py_int_def)
    from m have b: "digit_groups cs" "length (filter is_digit cs) \<le> max_str_digits"
      "m = nat_of_digits (filter is_digit cs)"
      by (simp_all add: int_body_iff)
    from s core minus have "s = l @ ''-'' @ cs @ r" by simp
    with l r b n show ?thesis
      unfolding int_literal_def by (intro exI [of _ l] exI [of _ "''-''"] exI [of _ cs] exI [of _ r]) simp
  next
    case plus
    with assms core obtain m where m: "int_body cs = Some m" and n: "n = int m"
      by (auto simp: py_int_def)
    from m have b: "digit_groups cs" "length (filter is_digit cs) \<le> max_str_digits"
      "m = nat_of_digits (filter is_digit cs)"
      by (simp_all add: int_body_iff)
    from s core plus have "s = l @ ''+'' @ cs @ r" by simp
    with l r b n show ?thesis
      unfolding int_literal_def by (intro exI [of _ l] exI [of _ "''+''"] exI [of _ cs] exI [of _ r]) simp
  next
    case none
    with assms core obtain m where m: "int_body (c # cs) = Some m" and n: "n = int m"
      by (auto simp: py_int_def)
    from m have b: "digit_groups (c # cs)" "length (filter is_digit (c # cs)) \<le> max_str_digits"
      "m = nat_of_digits (filter is_digit (c # cs))"
      by (simp_all add: int_body_iff)
    from s core have "s = l @ [] @ (c # cs) @ r" by simp
    with l r b n show ?thesis
      unfolding int_literal_def by (intro exI [of _ l] exI [of _ "[]"] exI [of _ "c # cs"] exI [of _ r]) simp
  qed
qed

lemma int_literal_py_int:
  assumes "int_literal s n"
  shows "py_int s = Some n"
proof -
  from assms obtain l sg b r where s: "s = l @ sg @ b @ r"
    and l: "list_all is_int_space l" and r: "list_all is_int_space r"
    and sg: "sg = [] \<or> sg = ''+'' \<or> sg = ''-''"
    and b: "digit_groups b" and lim: "length (filter is_digit b) \<le> max_str_digits"
    and n: "n = (if sg = ''-'' then - int (nat_of_digits (filter is_digit b))
                else int (nat_of_digits (filter is_digit b)))"
    unfolding int_literal_def by blast
  from b have bne: "b \<noteq> []" and hb: "is_digit (hd b)" and lb: "is_digit (last b)"
    by (simp_all add: digit_groups_def)
  from b lim have ib: "int_body b = Some (nat_of_digits (filter is_digit b))"
    by (simp add: int_body_iff)
  obtain c cs where bc: "b = c # cs" using bne by (cases b) auto
  with hb have c: "is_digit c" by simp
  then have cn: "c \<noteq> CHR ''-''" "c \<noteq> CHR ''+''" using sign_not_digit by auto
  have ne: "sg @ b \<noteq> []" using bne by simp
  have h: "\<not> is_int_space (hd (sg @ b))"
    using sg hb bne by (auto simp: sign_not_space digit_not_space)
  have la: "\<not> is_int_space (last (sg @ b))"
    using lb bne by (simp add: digit_not_space)
  have "strip (l @ (sg @ b) @ r) = sg @ b"
    using l r ne h la by (rule strip_core)
  then have st: "strip s = sg @ b" by (simp add: s)
  from sg show ?thesis
  proof (elim disjE)
    assume "sg = []"
    then show ?thesis using st ib n cn by (simp add: py_int_def bc)
  next
    assume "sg = ''+''"
    then show ?thesis using st ib n by (simp add: py_int_def)
  next
    assume "sg = ''-''"
    then show ?thesis using st ib n by (simp add: py_int_def)
  qed
qed

lemma py_int_iff: "py_int s = Some n \<longleftrightarrow> int_literal s n"
  using py_int_literal int_literal_py_int by blast

lemma digits_int_literal:
  assumes "s \<noteq> []" "list_all is_digit s" "length s \<le> max_str_digits"
  shows "int_literal s (int (nat_of_digits s))"
proof -
  have f: "filter is_digit s = s" using assms(2) by (simp add: list_all_iff)
  have u: "CHR ''_'' \<notin> set s" using assms(2) underscore_not_digit by (auto simp: list_all_iff)
  have "\<forall>p q. s \<noteq> p @ ''__'' @ q"
  proof (intro allI notI)
    fix p q assume "s = p @ ''__'' @ q"
    then have "CHR ''_'' \<in> set s" by simp
    with u show False by simp
  qed
  moreover have "is_digit (hd s)" "is_digit (last s)"
    using assms(1,2) by (simp_all add: list_all_iff)
  moreover have "list_all (\<lambda>c. is_digit c \<or> c = CHR ''_'') s"
    using assms(2) by (simp add: list_all_iff)
  ultimately have g: "digit_groups s" using assms(1) by (simp add: digit_groups_def)
  have "s = [] @ [] @ s @ []" by simp
  with g assms(3) f show ?thesis
    unfolding int_literal_def
    by (intro exI [of _ "[]"] exI [of _ s]) simp
qed

lemma py_int_None_iff: "py_int s = None \<longleftrightarrow> (\<forall>n. \<not> int_literal s n)"
  using py_int_iff [of s] by (cases "py_int s") auto

section \<open>Properties of the quality resolver\<close>

lemma quality_map_None: "quality_map q = None \<longleftrightarrow> q \<notin> {''low'', ''medium'', ''hd''}"
  by (auto simp: quality_map_def)

lemma key_simps:
  "the (quality_map ''low'') = ''url_video_low''"
  "the (quality_map ''medium'') = ''url_video''"
  "the (quality_map ''hd'') = ''url_video_hd''"
  by (simp_all add: quality_map_def)

lemma fst_resolver:
  assumes "q \<in> {''low'', ''medium'', ''hd''}"
  shows "fst (get_video_url_by_quality v q) =
     (if truthy (dict_get v (the (quality_map q))) then dict_get v (the (quality_map q))
      else if truthy (dict_get v ''url_video_hd'') then dict_get v ''url_video_hd''
      else if truthy (dict_get v ''url_video'') then dict_get v ''url_video''
      else dict_get v ''url_video_low'')"
proof -
  from assms have "quality_map q \<noteq> None" by (simp add: quality_map_None)
  then obtain k where "quality_map q = Some k" by blast
  then show ?thesis
    by (simp add: get_video_url_by_quality_def Let_def)
qed

lemma snd_resolver:
  "snd (get_video_url_by_quality v q) = file_extension_of ''.mp4'' (fst (get_video_url_by_quality v q))"
  by (simp add: get_video_url_by_quality_def Let_def)


lemma any_truthy:
  assumes "q \<in> {''low'', ''medium'', ''hd''}"
    and "truthy (dict_get v ''url_video_hd'') \<or> truthy (dict_get v ''url_video'')
            \<or> truthy (dict_get v ''url_video_low'')"
  shows "truthy (fst (get_video_url_by_quality v q))"
  using assms by (elim insertE) (auto simp: fst_resolver key_simps)


text \<open>
  Claim C8. A tier string that is not \<^verbatim>\<open>low\<close>, \<^verbatim>\<open>medium\<close> or \<^verbatim>\<open>hd\<close> gives the same
  pair of URL and file extension as the tier \<^verbatim>\<open>medium\<close> on the same record.
\<close>

theorem unrecognized_tier_is_medium:
  assumes "q \<notin> {''low'', ''medium'', ''hd''}"
  shows "get_video_url_by_quality v q = get_video_url_by_quality v ''medium''"
proof -
  from assms have "quality_map q = None" by (simp add: quality_map_None)
  moreover have "quality_map ''medium'' \<noteq> None" by (simp add: quality_map_def)
  ultimately show ?thesis by (simp add: get_video_url_by_quality_def)
qed

theorem unrecognized_tier_is_medium_witness:
  "''ultra'' \<notin> {''low'', ''medium'', ''hd''} \<and>
   get_video_url_by_quality [''url_video'' \<mapsto> PStr ''http://a/b.webm''] ''ultra''
     = (PStr ''http://a/b.webm'', ''.webm'')"
proof -
  have h: "''ultra'' \<notin> {''low'', ''medium'', ''hd''}" by simp
  have "get_video_url_by_quality [''url_video'' \<mapsto> PStr ''http://a/b.webm''] ''medium''
          = (PStr ''http://a/b.webm'', ''.webm'')"
    by (simp add: get_video_url_by_quality_def quality_map_def dict_get_def
        file_extension_of_def match_ext_def is_alnum_def)
  with unrecognized_tier_is_medium [OF h] h show ?thesis by simp
qed



text \<open>
  Claim C10, as stated, fails: on a record whose only tier field is \<^verbatim>\<open>url_video_low\<close>
  holding the empty string, tier \<^verbatim>\<open>low\<close> returns that empty string as the resolved
  URL, while the same record without the field gives \<^verbatim>\<open>None\<close>.
\<close>

theorem empty_requested_url_counterexample:
  "[''url_video_low'' \<mapsto> PStr ''''] ''url_video_low'' = Some (PStr '''')
   \<and> \<not> truthy (PStr '''')
   \<and> get_video_url_by_quality [''url_video_low'' \<mapsto> PStr ''''] ''low'' = (PStr '''', ''.mp4'')
   \<and> get_video_url_by_quality ([''url_video_low'' \<mapsto> PStr ''''](''url_video_low'' := None)) ''low''
        = (PNone, ''.mp4'')"
  by (simp add: get_video_url_by_quality_def quality_map_def dict_get_def file_extension_of_def)

text \<open>
  Claim C10, amended. When the requested tier's field is present but false (empty string or
  \<^verbatim>\<open>None\<close>), the fallback chain runs. The result is that of the record without the
  field whenever the tier is not \<^verbatim>\<open>low\<close> or a non-empty \<^verbatim>\<open>hd\<close> or \<^verbatim>\<open>medium\<close>
  URL exists; and if any tier holds a non-empty URL the result is non-empty, so the empty
  value of the requested field is not what is returned.
\<close>

theorem falsy_requested_url_falls_back:
  assumes "q \<in> {''low'', ''medium'', ''hd''}"
    and "\<not> truthy (dict_get v (the (quality_map q)))"
  shows "(q \<noteq> ''low'' \<or> truthy (dict_get v ''url_video_hd'') \<or> truthy (dict_get v ''url_video'') \<longrightarrow>
            get_video_url_by_quality v q
              = get_video_url_by_quality (v(the (quality_map q) := None)) q)
       \<and> (truthy (dict_get v ''url_video_hd'') \<or> truthy (dict_get v ''url_video'')
            \<or> truthy (dict_get v ''url_video_low'') \<longrightarrow>
            truthy (fst (get_video_url_by_quality v q)))"
proof -
  have a: "q \<noteq> ''low'' \<or> truthy (dict_get v ''url_video_hd'') \<or> truthy (dict_get v ''url_video'') \<longrightarrow>
            fst (get_video_url_by_quality v q)
              = fst (get_video_url_by_quality (v(the (quality_map q) := None)) q)"
    using assms by (elim insertE) (auto simp: fst_resolver key_simps dict_get_def)
  have b: "truthy (dict_get v ''url_video_hd'') \<or> truthy (dict_get v ''url_video'')
            \<or> truthy (dict_get v ''url_video_low'') \<longrightarrow>
            truthy (fst (get_video_url_by_quality v q))"
    using any_truthy [OF assms(1), of v] by blast
  from a have a': "q \<noteq> ''low'' \<or> truthy (dict_get v ''url_video_hd'') \<or> truthy (dict_get v ''url_video'') \<longrightarrow>
            get_video_url_by_quality v q
              = get_video_url_by_quality (v(the (quality_map q) := None)) q"
    by (simp add: prod_eq_iff snd_resolver)
  show ?thesis
    by (intro conjI) (rule a', rule b)
qed

theorem falsy_requested_url_falls_back_witness:
  "''medium'' \<in> {''low'', ''medium'', ''hd''}
   \<and> \<not> truthy (dict_get [''url_video'' \<mapsto> PStr '''', ''url_video_low'' \<mapsto> PStr ''http://h/c.mp4'']
                   (the (quality_map ''medium'')))
   \<and> get_video_url_by_quality [''url_video'' \<mapsto> PStr '''', ''url_video_low'' \<mapsto> PStr ''http://h/c.mp4''] ''medium''
      = get_video_url_by_quality ([''url_video'' \<mapsto> PStr '''', ''url_video_low'' \<mapsto> PStr ''http://h/c.mp4''](''url_video'' := None)) ''medium''
   \<and> truthy (fst (get_video_url_by_quality [''url_video'' \<mapsto> PStr '''', ''url_video_low'' \<mapsto> PStr ''http://h/c.mp4''] ''medium''))"
  using falsy_requested_url_falls_back [of "''medium''" "[''url_video'' \<mapsto> PStr '''', ''url_video_low'' \<mapsto> PStr ''http://h/c.mp4'']"]
  by (auto simp: dict_get_def key_simps)


section \<open>Properties of the paginator\<close>

lemma query_loop_stop:
  "status_code (post n (mk off)) \<noteq> 200 \<or> results (post n (mk off)) = []
   \<Longrightarrow> query_loop post mk n off acc = Some acc"
  by (subst query_loop.simps) auto

lemma query_loop_step:
  "status_code (post n (mk off)) = 200 \<Longrightarrow> results (post n (mk off)) \<noteq> []
   \<Longrightarrow> query_loop post mk n off acc
       = query_loop post mk (n + 1) (off + 100) (acc @ results (post n (mk off)))"
  by (subst query_loop.simps) simp

lemma upt_0_Suc_map: "map f [0..<Suc m] = f 0 # map (\<lambda>i. f (Suc i)) [0..<m]"
proof -
  have "[0..<Suc m] = 0 # map Suc [0..<m]"
    by (simp add: upt_conv_Cons map_Suc_upt del: upt_Suc)
  then show ?thesis by (simp add: comp_def del: upt_Suc)
qed

lemma query_loop_pages:
  assumes "\<forall>i<m. status_code (post (n + i) (mk (off + 100 * i))) = 200
                \<and> results (post (n + i) (mk (off + 100 * i))) \<noteq> []"
    and "status_code (post (n + m) (mk (off + 100 * m))) \<noteq> 200
         \<or> results (post (n + m) (mk (off + 100 * m))) = []"
  shows "query_loop post mk n off acc
         = Some (acc @ concat (map (\<lambda>i. results (post (n + i) (mk (off + 100 * i)))) [0..<m]))"
  using assms
proof (induction m arbitrary: n off acc)
  case 0
  then show ?case by (simp add: query_loop_stop)
next
  case (Suc m)
  from Suc.prems(1) have ok0: "status_code (post n (mk off)) = 200" "results (post n (mk off)) \<noteq> []"
    by force+
  have a: "\<forall>i<m. status_code (post (n + 1 + i) (mk (off + 100 + 100 * i))) = 200
                \<and> results (post (n + 1 + i) (mk (off + 100 + 100 * i))) \<noteq> []"
  proof (intro allI impI)
    fix i assume "i < m"
    then have "Suc i < Suc m" by simp
    from Suc.prems(1)[rule_format, OF this] show "status_code (post (n + 1 + i) (mk (off + 100 + 100 * i))) = 200
                \<and> results (post (n + 1 + i) (mk (off + 100 + 100 * i))) \<noteq> []"
      by (simp add: algebra_simps)
  qed
  have b: "status_code (post (n + 1 + m) (mk (off + 100 + 100 * m))) \<noteq> 200
         \<or> results (post (n + 1 + m) (mk (off + 100 + 100 * m))) = []"
    using Suc.prems(2) by (simp add: algebra_simps)
  have "query_loop post mk n off acc
       = query_loop post mk (n + 1) (off + 100) (acc @ results (post n (mk off)))"
    using ok0 by (rule query_loop_step)
  also have "\<dots> = Some ((acc @ results (post n (mk off)))
        @ concat (map (\<lambda>i. results (post (n + 1 + i) (mk (off + 100 + 100 * i)))) [0..<m]))"
    by (rule Suc.IH [OF a b])
  also have "\<dots> = Some (acc @ concat (map (\<lambda>i. results (post (n + i) (mk (off + 100 * i)))) [0..<Suc m]))"
    by (simp only: upt_0_Suc_map) (simp add: algebra_simps)
  finally show ?case .
qed

text \<open>
  Claim C4. When the first \<open>n\<close> responses have status 200 and a non-empty page, and
  response \<open>n\<close> has another status or an empty page, \<^verbatim>\<open>query_api\<close> returns, and
  what it returns is the concatenation of those \<open>n\<close> pages in page order: the loop
  stops at the first empty page or first failing status, and the pages before a failing
  status are kept.
\<close>

theorem pagination_concatenates_pages:
  assumes "\<forall>i<n. status_code (nth_page post q t p f i) = 200 \<and> results (nth_page post q t p f i) \<noteq> []"
    and "status_code (nth_page post q t p f n) \<noteq> 200 \<or> results (nth_page post q t p f n) = []"
  shows "query_api post q t p f = Some (concat (map (\<lambda>i. results (nth_page post q t p f i)) [0..<n]))"
  using query_loop_pages [of n post 0 "make_query_json q t p f" 0 "[]"] assms
  by (simp add: query_api_def nth_page_def)

theorem pagination_concatenates_pages_witness:
  "query_api (\<lambda>i req. if i < 2 then \<lparr>status_code = 200, results = [[''title'' \<mapsto> PStr (if offset req = 100 then ''second'' else ''first'')]]\<rparr>
                       else \<lparr>status_code = 500, results = [[''title'' \<mapsto> PStr ''lost'']]\<rparr>)
             ''tatort'' False True False
     = Some [[''title'' \<mapsto> PStr ''first''], [''title'' \<mapsto> PStr ''second'']]"
proof -
  let ?post = "\<lambda>i req. if i < (2::nat) then \<lparr>status_code = 200, results = [[''title'' \<mapsto> PStr (if offset req = 100 then ''second'' else ''first'')]]\<rparr>
                       else \<lparr>status_code = 500, results = [[''title'' \<mapsto> PStr ''lost'']]\<rparr>"
  have h1: "\<forall>i<2. status_code (nth_page ?post ''tatort'' False True False i) = 200
                \<and> results (nth_page ?post ''tatort'' False True False i) \<noteq> []"
    by (simp add: nth_page_def)
  have h2: "status_code (nth_page ?post ''tatort'' False True False 2) \<noteq> 200
            \<or> results (nth_page ?post ''tatort'' False True False 2) = []"
    by (simp add: nth_page_def)
  have u: "[0..<2] = [0, Suc 0]" by (simp add: upt_conv_Cons)
  show ?thesis
    using pagination_concatenates_pages [OF h1 h2]
    by (simp add: u nth_page_def make_query_json_def)
qed

section \<open>Properties of the topic disambiguator\<close>

lemma fold_collect:
  "fold (\<lambda>video_info topics.
             case dict_get video_info ''topic'' of
               PNone \<Rightarrow> topics
             | PStr topic \<Rightarrow> if topic \<noteq> [] then insert topic topics else topics) rs A
   = A \<union> {t. t \<noteq> [] \<and> (\<exists>v\<in>set rs. dict_get v ''topic'' = PStr t)}"
proof (induction rs arbitrary: A)
  case Nil
  then show ?case by simp
next
  case (Cons r rs)
  show ?case
    by (cases "dict_get r ''topic''") (auto simp: Cons.IH)
qed

lemma collect_topics_eq:
  "collect_topics rs = {t. t \<noteq> [] \<and> (\<exists>v\<in>set rs. dict_get v ''topic'' = PStr t)}"
  by (simp add: collect_topics_def fold_collect)

lemma finite_collect_topics: "finite (collect_topics rs)"
proof -
  have "collect_topics rs \<subseteq> (\<lambda>v. case dict_get v ''topic'' of PStr t \<Rightarrow> t | PNone \<Rightarrow> []) ` set rs"
    by (force simp: collect_topics_eq)
  then show ?thesis by (rule finite_subset) simp
qed

lemma set_sorted_topics: "set (sorted_topics rs) = collect_topics rs"
  by (simp add: sorted_topics_def finite_collect_topics)

lemma sorted_topics_props:
  "sorted (sorted_topics rs) \<and> distinct (sorted_topics rs)
   \<and> set (sorted_topics rs) = {t. t \<noteq> [] \<and> (\<exists>v\<in>set rs. dict_get v ''topic'' = PStr t)}"
  using set_sorted_topics [of rs] by (simp add: sorted_topics_def collect_topics_eq)

lemma topic_prompt_skips:
  assumes "\<forall>l\<in>set bad. \<forall>k. int_literal l k \<longrightarrow> k < 1 \<or> int (length topics) < k"
  shows "topic_prompt topics (bad @ stdin) = topic_prompt topics stdin"
  using assms
proof (induction bad)
  case Nil
  then show ?case by simp
next
  case (Cons l ls)
  then have r: "topic_prompt topics (ls @ stdin) = topic_prompt topics stdin" by simp
  from Cons.prems have b: "\<forall>k. py_int l = Some k \<longrightarrow> k < 1 \<or> int (length topics) < k"
    by (simp add: py_int_iff)
  show ?case
  proof (cases "py_int l")
    case None
    with r show ?thesis by simp
  next
    case (Some k)
    with b have "k < 1 \<or> int (length topics) < k" by simp
    with Some r show ?thesis by auto
  qed
qed

lemma topic_prompt_valid:
  "int_literal good n \<Longrightarrow> 1 \<le> n \<Longrightarrow> n \<le> int (length topics)
   \<Longrightarrow> topic_prompt topics (good # rest) = Inr (topics ! nat (n - 1), rest)"
  by (simp add: py_int_iff [symmetric])

lemma topic_prompt_member:
  "topic_prompt topics stdin = Inr (sel, stdin') \<Longrightarrow> sel \<in> set topics"
proof (induction stdin)
  case Nil
  then show ?case by simp
next
  case (Cons l ls)
  then show ?case
    by (auto split: option.splits if_splits)
qed

text \<open>
  Claim C2. With more than one distinct non-empty topic, \<^verbatim>\<open>select_topic\<close> reads lines
  until one is an integer literal whose number lies between 1 and the number of topics:
  every line before it that is no integer literal, or whose number is out of range, is
  skipped with a new prompt. It then returns exactly the records whose topic is the one at
  that 1-based index of the sorted list of the distinct non-empty topics, and leaves the rest
  of the input unread.
\<close>

theorem select_topic_reprompts:
  assumes "1 < length (sorted_topics rs)"
    and "\<forall>l\<in>set bad. \<forall>k. int_literal l k \<longrightarrow> k < 1 \<or> int (length (sorted_topics rs)) < k"
    and "int_literal good n" and "1 \<le> n" and "n \<le> int (length (sorted_topics rs))"
  shows "select_topic rs (bad @ good # rest)
           = Inr ((filter (\<lambda>v. dict_get v ''topic'' = PStr (sorted_topics rs ! nat (n - 1))) rs,
                   PStr (sorted_topics rs ! nat (n - 1))), rest)
         \<and> sorted (sorted_topics rs) \<and> distinct (sorted_topics rs)
         \<and> set (sorted_topics rs) = {t. t \<noteq> [] \<and> (\<exists>v\<in>set rs. dict_get v ''topic'' = PStr t)}"
proof -
  have "topic_prompt (sorted_topics rs) (bad @ good # rest)
          = topic_prompt (sorted_topics rs) (good # rest)"
    using assms(2) by (rule topic_prompt_skips)
  also have "\<dots> = Inr (sorted_topics rs ! nat (n - 1), rest)"
    using assms(3-5) by (rule topic_prompt_valid)
  finally have "select_topic rs (bad @ good # rest)
           = Inr ((filter (\<lambda>v. dict_get v ''topic'' = PStr (sorted_topics rs ! nat (n - 1))) rs,
                   PStr (sorted_topics rs ! nat (n - 1))), rest)"
    using assms(1) by (simp add: select_topic_def Let_def)
  with sorted_topics_props [of rs] show ?thesis by blast
qed

lemma sorted_topics_abb:
  "sorted_topics [[''topic'' \<mapsto> PStr ''A''], [''topic'' \<mapsto> PStr ''A'', ''title'' \<mapsto> PStr ''x''],
                  [''topic'' \<mapsto> PStr ''B'']] = [''A'', ''B'']"
  by (simp add: sorted_topics_def collect_topics_def dict_get_def)

lemma py_int_samples:
  "py_int ''abc'' = None" "py_int ''3'' = Some 3" "py_int ''0'' = Some 0" "py_int ''2'' = Some 2"
  "py_int [CHR 0x1C, CHR ''2''] = None"
  by (simp_all add: py_int_def strip_def is_int_space_def int_body_def max_str_digits_def is_digit_def digit_val_def)

theorem select_topic_reprompts_witness:
  "select_topic [[''topic'' \<mapsto> PStr ''A''], [''topic'' \<mapsto> PStr ''A'', ''title'' \<mapsto> PStr ''x''],
                 [''topic'' \<mapsto> PStr ''B'']] [''abc'', [CHR 0x1C, CHR ''2''], ''3'', ''0'', ''2'', ''1'']
     = Inr (([[''topic'' \<mapsto> PStr ''B'']], PStr ''B''), [''1''])"
proof -
  let ?rs = "[[''topic'' \<mapsto> PStr ''A''], [''topic'' \<mapsto> PStr ''A'', ''title'' \<mapsto> PStr ''x''],
                 [''topic'' \<mapsto> PStr ''B'']]"
  have h1: "1 < length (sorted_topics ?rs)" by (simp add: sorted_topics_abb)
  have h2: "\<forall>l\<in>set [''abc'', [CHR 0x1C, CHR ''2''], ''3'', ''0''].
              \<forall>k. int_literal l k \<longrightarrow> k < 1 \<or> int (length (sorted_topics ?rs)) < k"
    by (simp add: sorted_topics_abb py_int_iff [symmetric] py_int_samples)
  have h3: "int_literal ''2'' 2" by (simp add: py_int_iff [symmetric] py_int_samples)
  have h4: "(1::int) \<le> 2" by simp
  have h5: "2 \<le> int (length (sorted_topics ?rs))" by (simp add: sorted_topics_abb)
  from select_topic_reprompts [OF h1 h2 h3 h4 h5, of "[''1'']"]
  show ?thesis by (simp add: sorted_topics_abb dict_get_def)
qed

text \<open>
  Claim C3, as stated, fails: with exactly one distinct topic the result set is returned
  unfiltered, so a record without a topic is returned beside the records of topic \<^verbatim>\<open>A\<close>.
\<close>

theorem single_topic_counterexample:
  "select_topic [[''topic'' \<mapsto> PStr ''A''], [''title'' \<mapsto> PStr ''clip'']] []
     = Inr (([[''topic'' \<mapsto> PStr ''A''], [''title'' \<mapsto> PStr ''clip'']], PStr ''A''), [])
   \<and> dict_get [''topic'' \<mapsto> PStr ''A''] ''topic'' = PStr ''A''
   \<and> dict_get [''title'' \<mapsto> PStr ''clip''] ''topic'' = PNone"
  by (simp add: select_topic_def sorted_topics_def collect_topics_def dict_get_def)

text \<open>
  Claim C3, amended. Every record that \<^verbatim>\<open>select_topic\<close> returns and that has a topic
  (a non-empty string) has the returned topic; when there is more than one distinct topic,
  every returned record has the returned topic. The returned topic is one of the distinct
  non-empty topics of the input. Whether a record without a topic is returned when there
  is exactly one distinct topic is left open.
\<close>

theorem select_topic_common_topic:
  assumes "select_topic rs stdin = Inr ((out, t), stdin')" and "v \<in> set out"
  shows "(dict_get v ''topic'' = t \<or> \<not> truthy (dict_get v ''topic''))
       \<and> (1 < length (sorted_topics rs) \<longrightarrow> dict_get v ''topic'' = t)
       \<and> (\<exists>s. t = PStr s \<and> s \<in> set (sorted_topics rs))"
proof -
  consider (many) "1 < length (sorted_topics rs)" | (one) "length (sorted_topics rs) = 1"
    | (none) "length (sorted_topics rs) = 0"
    by linarith
  then show ?thesis
  proof cases
    case many
    with assms(1) obtain sel where p: "topic_prompt (sorted_topics rs) stdin = Inr (sel, stdin')"
      and out: "out = filter (\<lambda>v. dict_get v ''topic'' = PStr sel) rs" and t: "t = PStr sel"
      by (auto simp: select_topic_def Let_def split: sum.splits)
    from p have "sel \<in> set (sorted_topics rs)" by (rule topic_prompt_member)
    with out t assms(2) show ?thesis by auto
  next
    case one
    with assms(1) have out: "out = rs" and t: "t = PStr (sorted_topics rs ! 0)"
      by (auto simp: select_topic_def Let_def)
    from one obtain x where x: "sorted_topics rs = [x]"
      by (cases "sorted_topics rs") auto
    then have c: "collect_topics rs = {x}"
      using set_sorted_topics [of rs] by simp
    have "dict_get v ''topic'' = PStr x \<or> \<not> truthy (dict_get v ''topic'')"
    proof (cases "dict_get v ''topic''")
      case PNone
      then show ?thesis by simp
    next
      case (PStr s)
      show ?thesis
      proof (cases "s = []")
        case True
        with PStr show ?thesis by simp
      next
        case False
        with PStr assms(2) out have "s \<in> collect_topics rs"
          by (auto simp: collect_topics_eq)
        with c PStr show ?thesis by simp
      qed
    qed
    with one x t show ?thesis by simp
  next
    case none
    with assms(1) have "out = []" by (simp add: select_topic_def Let_def)
    with assms(2) show ?thesis by simp
  qed
qed

theorem select_topic_common_topic_witness:
  "select_topic [[''topic'' \<mapsto> PStr ''A''], [''title'' \<mapsto> PStr ''clip'']] [''7'']
     = Inr (([[''topic'' \<mapsto> PStr ''A''], [''title'' \<mapsto> PStr ''clip'']], PStr ''A''), [''7''])
   \<and> [''title'' \<mapsto> PStr ''clip''] \<in> set [[''topic'' \<mapsto> PStr ''A''], [''title'' \<mapsto> PStr ''clip'']]
   \<and> (\<exists>s. PStr ''A'' = PStr s
          \<and> s \<in> set (sorted_topics [[''topic'' \<mapsto> PStr ''A''], [''title'' \<mapsto> PStr ''clip'']]))"
proof -
  let ?rs = "[[''topic'' \<mapsto> PStr ''A''], [''title'' \<mapsto> PStr ''clip'']]"
  have h1: "select_topic ?rs [''7''] = Inr ((?rs, PStr ''A''), [''7''])"
    by (simp add: select_topic_def sorted_topics_def collect_topics_def dict_get_def)
  have h2: "[''title'' \<mapsto> PStr ''clip''] \<in> set ?rs" by simp
  from select_topic_common_topic [OF h1 h2] h1 h2 show ?thesis by blast
qed

section \<open>Properties of the sort\<close>

lemma valueOrElse_cases:
  "valueOrElse PNone d = d"
  "py_int s = None \<Longrightarrow> valueOrElse (PStr s) d = d"
  "py_int s = Some n \<Longrightarrow> valueOrElse (PStr s) d = n"
  by (simp_all add: valueOrElse_def)

lemma sorted_pairs_wrt:
  "sorted (map season_episode_key ys) =
   sorted_wrt (\<lambda>a b. valueOrElse (dict_get a ''season'') 0 < valueOrElse (dict_get b ''season'') 0
                  \<or> (valueOrElse (dict_get a ''season'') 0 = valueOrElse (dict_get b ''season'') 0
                     \<and> valueOrElse (dict_get a ''episode'') 0 \<le> valueOrElse (dict_get b ''episode'') 0)) ys"
proof -
  have "(\<lambda>a b. season_episode_key a \<le> season_episode_key b) =
        (\<lambda>a b. valueOrElse (dict_get a ''season'') 0 < valueOrElse (dict_get b ''season'') 0
                  \<or> (valueOrElse (dict_get a ''season'') 0 = valueOrElse (dict_get b ''season'') 0
                     \<and> valueOrElse (dict_get a ''episode'') 0 \<le> valueOrElse (dict_get b ''episode'') 0))"
    by (intro ext) (auto simp: season_episode_key_def)
  then show ?thesis by (simp add: sorted_map)
qed

text \<open>
  Claim C7. On every list of records that have the \<^verbatim>\<open>season\<close> and \<^verbatim>\<open>episode\<close> keys,
  \<^verbatim>\<open>sort_seasons_by_season_and_episode\<close> returns a list with the same records (nothing on
  a record changes), ordered ascending by the pair of the season and episode numbers, where
  ties keep their original relative order. The number of a value is 0 for \<^verbatim>\<open>None\<close> and
  for a string that is no integer literal, and the integer that the literal denotes
  otherwise; for a string of at most 4300 digits that is the decimal number it spells.
\<close>

theorem sort_total_stable:
  assumes "\<forall>x\<in>set xs. x ''season'' \<noteq> None \<and> x ''episode'' \<noteq> None"
  shows "\<exists>ys. sort_seasons_by_season_and_episode xs = Inr ys
          \<and> mset ys = mset xs
          \<and> sorted_wrt (\<lambda>a b. valueOrElse (dict_get a ''season'') 0 < valueOrElse (dict_get b ''season'') 0
                  \<or> (valueOrElse (dict_get a ''season'') 0 = valueOrElse (dict_get b ''season'') 0
                     \<and> valueOrElse (dict_get a ''episode'') 0 \<le> valueOrElse (dict_get b ''episode'') 0)) ys
          \<and> (\<forall>k. filter (\<lambda>x. season_episode_key x = k) ys = filter (\<lambda>x. season_episode_key x = k) xs)
          \<and> (\<forall>x. season_episode_key x
                   = (valueOrElse (dict_get x ''season'') 0, valueOrElse (dict_get x ''episode'') 0))
          \<and> valueOrElse PNone 0 = 0
          \<and> (\<forall>s. (\<forall>n. \<not> int_literal s n) \<longrightarrow> valueOrElse (PStr s) 0 = 0)
          \<and> (\<forall>s n. int_literal s n \<longrightarrow> valueOrElse (PStr s) 0 = n)
          \<and> (\<forall>s. s \<noteq> [] \<and> list_all is_digit s \<and> length s \<le> 4300
                   \<longrightarrow> valueOrElse (PStr s) 0 = int (nat_of_digits s))"
proof -
  let ?ys = "sort_key season_episode_key xs"
  have r: "sort_seasons_by_season_and_episode xs = Inr ?ys"
    using assms by (simp add: sort_seasons_by_season_and_episode_def)
  have m: "mset ?ys = mset xs" by simp
  have s: "sorted (map season_episode_key ?ys)" by (rule sorted_sort_key)
  have st: "\<forall>k. filter (\<lambda>x. season_episode_key x = k) ?ys = filter (\<lambda>x. season_episode_key x = k) xs"
    by (simp add: sort_key_stable)
  have k: "\<forall>x. season_episode_key x
                   = (valueOrElse (dict_get x ''season'') 0, valueOrElse (dict_get x ''episode'') 0)"
    by (simp add: season_episode_key_def)
  have v: "valueOrElse PNone 0 = 0
          \<and> (\<forall>s. (\<forall>n. \<not> int_literal s n) \<longrightarrow> valueOrElse (PStr s) 0 = 0)
          \<and> (\<forall>s n. int_literal s n \<longrightarrow> valueOrElse (PStr s) 0 = n)
          \<and> (\<forall>s. s \<noteq> [] \<and> list_all is_digit s \<and> length s \<le> 4300
                   \<longrightarrow> valueOrElse (PStr s) 0 = int (nat_of_digits s))"
    using digits_int_literal
    by (simp add: valueOrElse_cases py_int_iff [symmetric] py_int_None_iff [symmetric]
        max_str_digits_def)
  from s have s': "sorted_wrt (\<lambda>a b. valueOrElse (dict_get a ''season'') 0 < valueOrElse (dict_get b ''season'') 0
                  \<or> (valueOrElse (dict_get a ''season'') 0 = valueOrElse (dict_get b ''season'') 0
                     \<and> valueOrElse (dict_get a ''episode'') 0 \<le> valueOrElse (dict_get b ''episode'') 0)) ?ys"
    by (simp only: sorted_pairs_wrt)
  from r m s' st k v show ?thesis
    by (intro exI [of _ ?ys]) blast
qed

lemma py_int_digit_samples: "py_int ''1'' = Some 1" "py_int ''2'' = Some 2"
  "py_int [CHR 0x1C, CHR ''5''] = None"
  by (simp_all add: py_int_def strip_def is_int_space_def int_body_def max_str_digits_def is_digit_def digit_val_def)

theorem sort_total_stable_witness:
  "sort_seasons_by_season_and_episode
     [[''season'' \<mapsto> PNone, ''episode'' \<mapsto> PNone],
      [''season'' \<mapsto> PStr ''2'', ''episode'' \<mapsto> PStr ''1''],
      [''season'' \<mapsto> PStr [CHR 0x1C, CHR ''5''], ''episode'' \<mapsto> PStr ''1''],
      [''season'' \<mapsto> PStr ''1'', ''episode'' \<mapsto> PStr ''1'']]
   = Inr [[''season'' \<mapsto> PNone, ''episode'' \<mapsto> PNone],
          [''season'' \<mapsto> PStr [CHR 0x1C, CHR ''5''], ''episode'' \<mapsto> PStr ''1''],
          [''season'' \<mapsto> PStr ''1'', ''episode'' \<mapsto> PStr ''1''],
          [''season'' \<mapsto> PStr ''2'', ''episode'' \<mapsto> PStr ''1'']]
   \<and> (\<exists>ys. sort_seasons_by_season_and_episode
              [[''season'' \<mapsto> PNone, ''episode'' \<mapsto> PNone],
               [''season'' \<mapsto> PStr ''2'', ''episode'' \<mapsto> PStr ''1''],
               [''season'' \<mapsto> PStr [CHR 0x1C, CHR ''5''], ''episode'' \<mapsto> PStr ''1''],
               [''season'' \<mapsto> PStr ''1'', ''episode'' \<mapsto> PStr ''1'']] = Inr ys
          \<and> mset ys = mset [[''season'' \<mapsto> PNone, ''episode'' \<mapsto> PNone],
                            [''season'' \<mapsto> PStr ''2'', ''episode'' \<mapsto> PStr ''1''],
                            [''season'' \<mapsto> PStr [CHR 0x1C, CHR ''5''], ''episode'' \<mapsto> PStr ''1''],
                            [''season'' \<mapsto> PStr ''1'', ''episode'' \<mapsto> PStr ''1'']])"
proof -
  let ?xs = "[[''season'' \<mapsto> PNone, ''episode'' \<mapsto> PNone],
              [''season'' \<mapsto> PStr ''2'', ''episode'' \<mapsto> PStr ''1''],
              [''season'' \<mapsto> PStr [CHR 0x1C, CHR ''5''], ''episode'' \<mapsto> PStr ''1''],
              [''season'' \<mapsto> PStr ''1'', ''episode'' \<mapsto> PStr ''1'']]"
  have h: "\<forall>x\<in>set ?xs. x ''season'' \<noteq> None \<and> x ''episode'' \<noteq> None" by simp
  have e: "sort_seasons_by_season_and_episode ?xs
           = Inr [[''season'' \<mapsto> PNone, ''episode'' \<mapsto> PNone],
                  [''season'' \<mapsto> PStr [CHR 0x1C, CHR ''5''], ''episode'' \<mapsto> PStr ''1''],
                  [''season'' \<mapsto> PStr ''1'', ''episode'' \<mapsto> PStr ''1''],
                  [''season'' \<mapsto> PStr ''2'', ''episode'' \<mapsto> PStr ''1'']]"
    by (simp add: sort_seasons_by_season_and_episode_def season_episode_key_def valueOrElse_def
        dict_get_def py_int_digit_samples)
  from sort_total_stable [OF h] have
    "\<exists>ys. sort_seasons_by_season_and_episode ?xs = Inr ys \<and> mset ys = mset ?xs"
    by blast
  with e show ?thesis by blast
qed

section \<open>Properties of the season selection\<close>

lemma title_search_ok:
  "v ''title'' \<noteq> Some PNone \<Longrightarrow> \<exists>m. title_search v = Inr m"
  by (cases "v ''title''") (auto simp: title_search_def dict_get_default_def split: pyval.splits)

lemma determine_ok:
  assumes "\<forall>v\<in>set rs. v ''title'' \<noteq> Some PNone"
  shows "\<exists>rs1. determine_season_and_episode rs = Inr rs1 \<and> length rs1 = length rs
              \<and> (\<forall>x\<in>set rs1. x ''season'' \<noteq> None \<and> x ''episode'' \<noteq> None)"
  using assms
proof (induction rs)
  case Nil
  then show ?case by simp
next
  case (Cons v rs)
  then obtain rs1 where rs1: "determine_season_and_episode rs = Inr rs1" "length rs1 = length rs"
    "\<forall>x\<in>set rs1. x ''season'' \<noteq> None \<and> x ''episode'' \<noteq> None"
    by auto
  from Cons.prems obtain m where m: "title_search v = Inr m"
    using title_search_ok [of v] by auto
  show ?case
    using rs1 m by (cases m) auto
qed

lemma season_append_nonempty: "season_append k v S \<noteq> []"
  by (cases S) (auto split: if_splits)

lemma group_seasons_ok:
  assumes "\<forall>x\<in>set xs. x ''season'' \<noteq> None"
  shows "\<exists>S. group_seasons xs acc = Inr S \<and> (xs \<noteq> [] \<or> acc \<noteq> [] \<longrightarrow> S \<noteq> [])"
  using assms
proof (induction xs arbitrary: acc)
  case Nil
  then show ?case by simp
next
  case (Cons x xs)
  from Cons.prems obtain k where k: "x ''season'' = Some k" by auto
  from Cons.prems have "\<forall>x\<in>set xs. x ''season'' \<noteq> None" by simp
  from Cons.IH [OF this, of "season_append k x acc"]
  show ?case using k by (auto simp: dict_item_def season_append_nonempty)
qed

lemma select_season_steps:
  "determine_season_and_episode rs = Inr rs1 \<Longrightarrow> sort_seasons_by_season_and_episode rs1 = Inr rs2
   \<Longrightarrow> group_seasons rs2 [] = Inr S \<Longrightarrow> S \<noteq> []
   \<Longrightarrow> select_season rs stdin = season_prompt S stdin"
  by (simp add: select_season_def)

lemma lower_char_y: "lower_char c = CHR ''y'' \<longleftrightarrow> c = CHR ''y'' \<or> c = CHR ''Y''"
proof -
  let ?n = "of_char c :: nat"
  have c: "c = char_of ?n" by simp
  show ?thesis
  proof (cases "(65 \<le> ?n \<and> ?n \<le> 90) \<or> (192 \<le> ?n \<and> ?n \<le> 222 \<and> ?n \<noteq> 215)")
    case True
    then have l: "lower_char c = char_of (?n + 32)" by (simp add: lower_char_def Let_def)
    have "char_of (?n + 32) = CHR ''y'' \<longleftrightarrow> (of_char (char_of (?n + 32) :: char) :: nat) = of_char CHR ''y''"
      by (simp only: of_char_eq_iff)
    also have "\<dots> \<longleftrightarrow> ?n = 89" using True by auto
    also have "\<dots> \<longleftrightarrow> ?n = of_char CHR ''Y''" by simp
    also have "\<dots> \<longleftrightarrow> c = CHR ''Y''" by (simp only: of_char_eq_iff)
    finally have "lower_char c = CHR ''y'' \<longleftrightarrow> c = CHR ''Y''" by (simp only: l)
    moreover from True have "c \<noteq> CHR ''y''" by auto
    ultimately show ?thesis by simp
  next
    case False
    then have l: "lower_char c = c" by (auto simp: lower_char_def Let_def)
    from False have "c \<noteq> CHR ''Y''" by auto
    with l show ?thesis by simp
  qed
qed

lemma lower_y: "map lower_char choice = ''y'' \<longleftrightarrow> choice = ''y'' \<or> choice = ''Y''"
proof -
  have "map lower_char choice = ''y'' \<longleftrightarrow> (\<exists>c. choice = [c] \<and> lower_char c = CHR ''y'')"
    by (cases choice) auto
  then show ?thesis by (auto simp: lower_char_y)
qed

text \<open>
  Claim C1, amended. On a non-empty result set whose titles are strings, a season choice
  that is not empty, not \<^verbatim>\<open>y\<close> in either case and no integer literal ends the run: the
  handler of \<^verbatim>\<open>ValueError\<close> calls \<^verbatim>\<open>exit(1)\<close>. No second line is read, whatever input
  follows.
\<close>

theorem select_season_non_numeric_exits:
  assumes "rs \<noteq> []" and "\<forall>v\<in>set rs. v ''title'' \<noteq> Some PNone"
    and "choice \<noteq> []" and "choice \<noteq> ''y''" and "choice \<noteq> ''Y''"
    and "\<forall>n. \<not> int_literal choice n"
  shows "select_season rs (choice # stdin) = Inl (SystemExit 1)"
proof -
  from assms(4,5) have ny: "map lower_char choice \<noteq> ''y''" by (simp add: lower_y)
  from assms(6) have ni: "py_int choice = None" by (simp add: py_int_None_iff)
  from determine_ok [OF assms(2)] obtain rs1 where
    rs1: "determine_season_and_episode rs = Inr rs1" "length rs1 = length rs"
         "\<forall>x\<in>set rs1. x ''season'' \<noteq> None \<and> x ''episode'' \<noteq> None"
    by blast
  let ?rs2 = "sort_key season_episode_key rs1"
  have rs2: "sort_seasons_by_season_and_episode rs1 = Inr ?rs2"
    using rs1(3) by (simp add: sort_seasons_by_season_and_episode_def)
  from rs1(2) assms(1) have ne: "?rs2 \<noteq> []"
    by (metis length_0_conv length_sort)
  have "\<forall>x\<in>set ?rs2. x ''season'' \<noteq> None" using rs1(3) by simp
  from group_seasons_ok [OF this, of "[]"] ne obtain S where
    S: "group_seasons ?rs2 [] = Inr S" "S \<noteq> []"
    by blast
  have "season_prompt S (choice # stdin) = Inl (SystemExit 1)"
    using assms(3) ny ni by simp
  with rs1(1) rs2 S show ?thesis
    by (simp add: select_season_def)
qed

lemma search_SE_sample: "search_SE ''Show S1/E1'' = Some (''1'', ''1'')"
  by (simp add: match_SE_def is_digit_def)

lemma py_int_season_samples: "py_int ''abc'' = None" "py_int ''1'' = Some 1"
  "py_int [CHR 0x1C, CHR ''2''] = None"
  by (simp_all add: py_int_def strip_def is_int_space_def int_body_def max_str_digits_def is_digit_def digit_val_def)

lemma lower_abc: "map lower_char ''abc'' = ''abc''"
  by (simp add: lower_char_def)

lemma determine_sample:
  "determine_season_and_episode [[''title'' \<mapsto> PStr ''Show S1/E1'']]
     = Inr [[''title'' \<mapsto> PStr ''Show S1/E1'', ''season'' \<mapsto> PStr ''1'', ''episode'' \<mapsto> PStr ''1'']]"
  by (simp add: title_search_def dict_get_default_def search_SE_sample del: search_SE.simps)

text \<open>
  Claim C1, as stated, fails: the choice \<^verbatim>\<open>abc\<close> is non-numeric, non-empty and not
  \<^verbatim>\<open>y\<close>, and \<^verbatim>\<open>select_season\<close> exits with status 1 on it although a valid choice
  follows on the input; a new prompt would have read that choice and returned season 1.
\<close>

theorem non_numeric_season_choice_counterexample:
  "''abc'' \<noteq> [] \<and> map lower_char ''abc'' \<noteq> ''y'' \<and> py_int ''abc'' = None
   \<and> select_season [[''title'' \<mapsto> PStr ''Show S1/E1'']] [''abc'', ''1''] = Inl (SystemExit 1)
   \<and> select_season [[''title'' \<mapsto> PStr ''Show S1/E1'']] [''1'']
       = Inr ([[''title'' \<mapsto> PStr ''Show S1/E1'', ''season'' \<mapsto> PStr ''1'', ''episode'' \<mapsto> PStr ''1'']], [])"
proof -
  let ?r = "[''title'' \<mapsto> PStr ''Show S1/E1'', ''season'' \<mapsto> PStr ''1'', ''episode'' \<mapsto> PStr ''1'']"
  have s: "sort_seasons_by_season_and_episode [?r] = Inr [?r]"
    by (simp add: sort_seasons_by_season_and_episode_def)
  have g: "group_seasons [?r] [] = Inr [(PStr ''1'', [?r])]"
    by (simp add: dict_item_def)
  have p1: "season_prompt [(PStr ''1'', [?r])] [''abc'', ''1''] = Inl (SystemExit 1)"
    by (simp add: py_int_season_samples lower_abc)
  have p2: "season_prompt [(PStr ''1'', [?r])] [''1''] = Inr ([?r], [])"
    by (simp add: py_int_season_samples lower_char_def)
  have ne: "[(PStr ''1'', [?r])] \<noteq> []" by simp
  have a: "select_season [[''title'' \<mapsto> PStr ''Show S1/E1'']] [''abc'', ''1''] = Inl (SystemExit 1)"
    by (simp only: select_season_steps [OF determine_sample s g ne] p1)
  have b: "select_season [[''title'' \<mapsto> PStr ''Show S1/E1'']] [''1''] = Inr ([?r], [])"
    by (simp only: select_season_steps [OF determine_sample s g ne] p2)
  have c: "''abc'' \<noteq> [] \<and> map lower_char ''abc'' \<noteq> ''y'' \<and> py_int ''abc'' = None"
    by (simp add: py_int_season_samples lower_abc)
  from a b c show ?thesis by blast
qed

theorem select_season_non_numeric_exits_witness:
  "select_season [[''title'' \<mapsto> PStr ''Show S1/E1'']] [[CHR 0x1C, CHR ''2''], ''1''] = Inl (SystemExit 1)"
proof -
  have h1: "[[''title'' \<mapsto> PStr ''Show S1/E1'']] \<noteq> []" by simp
  have h2: "\<forall>v\<in>set [[''title'' \<mapsto> PStr ''Show S1/E1'']]. v ''title'' \<noteq> Some PNone" by simp
  have h3: "[CHR 0x1C, CHR ''2''] \<noteq> []" by simp
  have h4: "[CHR 0x1C, CHR ''2''] \<noteq> ''y''" by simp
  have h5: "[CHR 0x1C, CHR ''2''] \<noteq> ''Y''" by simp
  have h6: "\<forall>n. \<not> int_literal [CHR 0x1C, CHR ''2''] n"
    by (simp add: py_int_None_iff [symmetric] py_int_season_samples)
  show ?thesis by (rule select_season_non_numeric_exits [OF h1 h2 h3 h4 h5 h6])
qed

section \<open>Properties of the season and episode extraction\<close>

lemma not_digit_slash: "\<not> is_digit CHR ''/''"
  by (simp add: is_digit_def)

lemma list_all_takeWhile: "list_all P (takeWhile P xs)"
  by (induction xs) auto

lemma SE_match_at_Nil: "\<not> SE_match_at [] i s e"
  by (simp add: SE_match_at_def)

lemma SE_match_at_Suc: "SE_match_at (c # cs) (Suc i) s e = SE_match_at cs i s e"
  by (simp add: SE_match_at_def)

lemma take_prefix_length: "u = p @ r \<Longrightarrow> n = length p \<Longrightarrow> take n u = p"
  by simp

lemma SE_match_at_0_decomp:
  "SE_match_at u 0 s e \<longleftrightarrow>
     s \<noteq> [] \<and> e \<noteq> [] \<and> list_all is_digit s \<and> list_all is_digit e
     \<and> (\<exists>r. u = CHR ''S'' # s @ CHR ''/'' # CHR ''E'' # e @ r)"
proof
  assume a: "SE_match_at u 0 s e"
  then have t: "take (length s + length e + 3) u = ''S'' @ s @ ''/E'' @ e"
    by (simp add: SE_match_at_def)
  have "u = take (length s + length e + 3) u @ drop (length s + length e + 3) u"
    by simp
  with t have "u = CHR ''S'' # s @ CHR ''/'' # CHR ''E'' # e @ drop (length s + length e + 3) u"
    by simp
  with a show "s \<noteq> [] \<and> e \<noteq> [] \<and> list_all is_digit s \<and> list_all is_digit e
     \<and> (\<exists>r. u = CHR ''S'' # s @ CHR ''/'' # CHR ''E'' # e @ r)"
    by (auto simp: SE_match_at_def)
next
  assume "s \<noteq> [] \<and> e \<noteq> [] \<and> list_all is_digit s \<and> list_all is_digit e
     \<and> (\<exists>r. u = CHR ''S'' # s @ CHR ''/'' # CHR ''E'' # e @ r)"
  then obtain r where u: "u = CHR ''S'' # s @ CHR ''/'' # CHR ''E'' # e @ r"
    and p: "s \<noteq> []" "e \<noteq> []" "list_all is_digit s" "list_all is_digit e"
    by blast
  have "take (length s + length e + 3) u = ''S'' @ s @ ''/E'' @ e"
    by (rule take_prefix_length [where r = r]) (simp_all add: u)
  with p show "SE_match_at u 0 s e"
    by (simp add: SE_match_at_def)
qed

lemma takeWhile_digits_slash:
  "list_all is_digit s \<Longrightarrow> takeWhile is_digit (s @ CHR ''/'' # r) = s"
  by (induction s) (auto simp: not_digit_slash)

lemma dropWhile_digits_slash:
  "list_all is_digit s \<Longrightarrow> dropWhile is_digit (s @ CHR ''/'' # r) = CHR ''/'' # r"
  by (induction s) (auto simp: not_digit_slash)

lemma takeWhile_digits_prefix:
  "list_all is_digit e \<Longrightarrow> takeWhile is_digit (e @ r) = e @ takeWhile is_digit r"
  by (induction e) auto

lemma match_SE_sound:
  assumes "match_SE u = Some (s, e)"
  shows "SE_match_at u 0 s e"
proof -
  from assms obtain cs where u: "u = CHR ''S'' # cs" and s: "s = takeWhile is_digit cs" "s \<noteq> []"
    by (cases u) (auto simp: match_SE_def split: if_splits list.splits)
  from assms u obtain r where d: "dropWhile is_digit cs = CHR ''/'' # CHR ''E'' # r"
    and e: "e = takeWhile is_digit r" "e \<noteq> []"
    by (auto simp: match_SE_def split: if_splits list.splits)
  have "cs = takeWhile is_digit cs @ dropWhile is_digit cs" by simp
  with s d have cs: "cs = s @ CHR ''/'' # CHR ''E'' # r" by simp
  have "r = takeWhile is_digit r @ dropWhile is_digit r" by simp
  with e have r: "r = e @ dropWhile is_digit r" by simp
  from cs r have "u = CHR ''S'' # s @ CHR ''/'' # CHR ''E'' # e @ dropWhile is_digit r"
    using u by simp
  moreover have "list_all is_digit s" "list_all is_digit e"
    using s e by (simp_all add: list_all_takeWhile)
  ultimately show ?thesis
    using s(2) e(2) unfolding SE_match_at_0_decomp by blast
qed

lemma match_SE_complete:
  assumes "SE_match_at u 0 s' e'"
  shows "\<exists>e. match_SE u = Some (s', e) \<and> length e' \<le> length e"
proof -
  from assms obtain r where u: "u = CHR ''S'' # s' @ CHR ''/'' # CHR ''E'' # e' @ r"
    and ne: "s' \<noteq> []" "e' \<noteq> []" and dg: "list_all is_digit s'" "list_all is_digit e'"
    unfolding SE_match_at_0_decomp by blast
  have t1: "takeWhile is_digit (s' @ CHR ''/'' # CHR ''E'' # e' @ r) = s'"
    using dg(1) by (rule takeWhile_digits_slash)
  have d1: "dropWhile is_digit (s' @ CHR ''/'' # CHR ''E'' # e' @ r) = CHR ''/'' # CHR ''E'' # e' @ r"
    using dg(1) by (rule dropWhile_digits_slash)
  have t2: "takeWhile is_digit (e' @ r) = e' @ takeWhile is_digit r"
    using dg(2) by (rule takeWhile_digits_prefix)
  have "match_SE u = Some (s', e' @ takeWhile is_digit r)"
    using ne by (simp add: match_SE_def u t1 d1 t2)
  then show ?thesis by simp
qed

lemma search_SE_None:
  "search_SE t = None \<Longrightarrow> \<not> SE_match_at t i s e"
proof (induction t arbitrary: i)
  case Nil
  then show ?case by (simp add: SE_match_at_Nil)
next
  case (Cons c cs)
  from Cons.prems have m: "match_SE (c # cs) = None" and r: "search_SE cs = None"
    by (auto split: option.splits)
  show ?case
  proof (cases i)
    case 0
    with m match_SE_complete [of "c # cs" s e] show ?thesis by auto
  next
    case (Suc k)
    with Cons.IH [OF r, of k] show ?thesis by (simp add: SE_match_at_Suc)
  qed
qed

lemma search_SE_Some:
  "search_SE t = Some (s, e) \<Longrightarrow>
     \<exists>i. SE_match_at t i s e
        \<and> (\<forall>i' s' e'. SE_match_at t i' s' e' \<longrightarrow> i \<le> i' \<and> (i' = i \<longrightarrow> s' = s \<and> length e' \<le> length e))"
proof (induction t)
  case Nil
  then show ?case by simp
next
  case (Cons c cs)
  show ?case
  proof (cases "match_SE (c # cs)")
    case (Some g)
    with Cons.prems have g: "match_SE (c # cs) = Some (s, e)" by simp
    have "SE_match_at (c # cs) 0 s e" using g by (rule match_SE_sound)
    moreover have "\<forall>i' s' e'. SE_match_at (c # cs) i' s' e'
                     \<longrightarrow> 0 \<le> i' \<and> (i' = 0 \<longrightarrow> s' = s \<and> length e' \<le> length e)"
      using match_SE_complete g by fastforce
    ultimately show ?thesis by blast
  next
    case None
    with Cons.prems have "search_SE cs = Some (s, e)" by simp
    from Cons.IH [OF this] obtain i where i: "SE_match_at cs i s e"
      and mn: "\<forall>i' s' e'. SE_match_at cs i' s' e' \<longrightarrow> i \<le> i' \<and> (i' = i \<longrightarrow> s' = s \<and> length e' \<le> length e)"
      by blast
    have "SE_match_at (c # cs) (Suc i) s e" using i by (simp add: SE_match_at_Suc)
    moreover have "\<forall>i' s' e'. SE_match_at (c # cs) i' s' e'
                     \<longrightarrow> Suc i \<le> i' \<and> (i' = Suc i \<longrightarrow> s' = s \<and> length e' \<le> length e)"
    proof (intro allI impI)
      fix i' s' e' assume a: "SE_match_at (c # cs) i' s' e'"
      show "Suc i \<le> i' \<and> (i' = Suc i \<longrightarrow> s' = s \<and> length e' \<le> length e)"
      proof (cases i')
        case 0
        with a None match_SE_complete [of "c # cs" s' e'] show ?thesis by auto
      next
        case (Suc k)
        with a have "SE_match_at cs k s' e'" by (simp add: SE_match_at_Suc)
        with mn Suc show ?thesis by auto
      qed
    qed
    ultimately show ?thesis by blast
  qed
qed

lemma title_search_text:
  "v ''title'' \<noteq> Some PNone \<Longrightarrow> title_search v = Inr (search_SE (title_text v))"
  by (cases "v ''title''")
     (auto simp: title_search_def title_text_def dict_get_default_def split: pyval.splits)

lemma determine_map:
  assumes "\<forall>v\<in>set rs. v ''title'' \<noteq> Some PNone"
  shows "determine_season_and_episode rs
         = Inr (map (\<lambda>v. case search_SE (title_text v) of
                          Some (s, e) \<Rightarrow> v(''season'' \<mapsto> PStr s, ''episode'' \<mapsto> PStr e)
                        | None \<Rightarrow> v(''season'' \<mapsto> PNone, ''episode'' \<mapsto> PNone)) rs)"
  using assms by (induction rs) (simp_all add: title_search_text)

lemma annotate_props:
  fixes v :: video_info
  defines "t \<equiv> title_text v"
  defines "v' \<equiv> (case search_SE t of
                          Some (s, e) \<Rightarrow> v(''season'' \<mapsto> PStr s, ''episode'' \<mapsto> PStr e)
                        | None \<Rightarrow> v(''season'' \<mapsto> PNone, ''episode'' \<mapsto> PNone))"
  shows "((\<exists>i s e. SE_match_at t i s e) \<longrightarrow>
            (\<exists>i s e. SE_match_at t i s e
               \<and> (\<forall>i' s' e'. SE_match_at t i' s' e'
                     \<longrightarrow> i \<le> i' \<and> (i' = i \<longrightarrow> s' = s \<and> length e' \<le> length e))
               \<and> v' = v(''season'' \<mapsto> PStr s, ''episode'' \<mapsto> PStr e)))
       \<and> ((\<forall>i s e. \<not> SE_match_at t i s e) \<longrightarrow>
             v' = v(''season'' \<mapsto> PNone, ''episode'' \<mapsto> PNone))
       \<and> ((dict_get v' ''season'' = PNone) = (dict_get v' ''episode'' = PNone))"
proof (cases "search_SE t")
  case None
  then have "\<forall>i s e. \<not> SE_match_at t i s e" using search_SE_None by blast
  moreover from None have "v' = v(''season'' \<mapsto> PNone, ''episode'' \<mapsto> PNone)"
    by (simp add: v'_def)
  ultimately show ?thesis by (simp add: dict_get_def)
next
  case (Some g)
  obtain s e where g: "g = (s, e)" by (cases g)
  with Some have v': "v' = v(''season'' \<mapsto> PStr s, ''episode'' \<mapsto> PStr e)"
    by (simp add: v'_def)
  from Some g search_SE_Some [of t s e] obtain i where i: "SE_match_at t i s e"
    "\<forall>i' s' e'. SE_match_at t i' s' e'
        \<longrightarrow> i \<le> i' \<and> (i' = i \<longrightarrow> s' = s \<and> length e' \<le> length e)"
    by auto
  have c: "(dict_get v' ''season'' = PNone) = (dict_get v' ''episode'' = PNone)"
    by (simp add: v' dict_get_def)
  from i v' c show ?thesis by blast
qed

text \<open>
  Claim C6. On records whose title is a string (or missing, which reads as the empty
  string), \<^verbatim>\<open>determine_season_and_episode\<close> returns as many records as it got. If the
  title of a record has a match of \<^verbatim>\<open>S(\d+)/E(\d+)\<close>, its \<^verbatim>\<open>season\<close> and \<^verbatim>\<open>episode\<close>
  become the two digit strings of the first match: the match at the least offset, which
  among the matches at that offset has the longest groups. If the title has no match, both
  become \<^verbatim>\<open>None\<close>. So the two fields are both strings or both \<^verbatim>\<open>None\<close>. Nothing else
  on a record changes.
\<close>

theorem season_episode_from_first_match:
  assumes "\<forall>v\<in>set rs. v ''title'' \<noteq> Some PNone"
  shows "\<exists>rs'. determine_season_and_episode rs = Inr rs' \<and> length rs' = length rs
     \<and> (\<forall>j<length rs.
          ((\<exists>i s e. SE_match_at (title_text (rs ! j)) i s e) \<longrightarrow>
            (\<exists>i s e. SE_match_at (title_text (rs ! j)) i s e
               \<and> (\<forall>i' s' e'. SE_match_at (title_text (rs ! j)) i' s' e'
                     \<longrightarrow> i \<le> i' \<and> (i' = i \<longrightarrow> s' = s \<and> length e' \<le> length e))
               \<and> rs' ! j = (rs ! j)(''season'' \<mapsto> PStr s, ''episode'' \<mapsto> PStr e)))
        \<and> ((\<forall>i s e. \<not> SE_match_at (title_text (rs ! j)) i s e) \<longrightarrow>
             rs' ! j = (rs ! j)(''season'' \<mapsto> PNone, ''episode'' \<mapsto> PNone))
        \<and> ((dict_get (rs' ! j) ''season'' = PNone) = (dict_get (rs' ! j) ''episode'' = PNone)))"
proof -
  let ?f = "\<lambda>v::video_info. case search_SE (title_text v) of
                          Some (s, e) \<Rightarrow> v(''season'' \<mapsto> PStr s, ''episode'' \<mapsto> PStr e)
                        | None \<Rightarrow> v(''season'' \<mapsto> PNone, ''episode'' \<mapsto> PNone)"
  have d: "determine_season_and_episode rs = Inr (map ?f rs)"
    using assms by (rule determine_map)
  have l: "length (map ?f rs) = length rs" by simp
  have per: "\<forall>j<length rs.
          ((\<exists>i s e. SE_match_at (title_text (rs ! j)) i s e) \<longrightarrow>
            (\<exists>i s e. SE_match_at (title_text (rs ! j)) i s e
               \<and> (\<forall>i' s' e'. SE_match_at (title_text (rs ! j)) i' s' e'
                     \<longrightarrow> i \<le> i' \<and> (i' = i \<longrightarrow> s' = s \<and> length e' \<le> length e))
               \<and> map ?f rs ! j = (rs ! j)(''season'' \<mapsto> PStr s, ''episode'' \<mapsto> PStr e)))
        \<and> ((\<forall>i s e. \<not> SE_match_at (title_text (rs ! j)) i s e) \<longrightarrow>
             map ?f rs ! j = (rs ! j)(''season'' \<mapsto> PNone, ''episode'' \<mapsto> PNone))
        \<and> ((dict_get (map ?f rs ! j) ''season'' = PNone) = (dict_get (map ?f rs ! j) ''episode'' = PNone))"
  proof (rule allI, rule impI)
    fix j assume j: "j < length rs"
    then have n: "map ?f rs ! j = ?f (rs ! j)" by simp
    show "((\<exists>i s e. SE_match_at (title_text (rs ! j)) i s e) \<longrightarrow>
            (\<exists>i s e. SE_match_at (title_text (rs ! j)) i s e
               \<and> (\<forall>i' s' e'. SE_match_at (title_text (rs ! j)) i' s' e'
                     \<longrightarrow> i \<le> i' \<and> (i' = i \<longrightarrow> s' = s \<and> length e' \<le> length e))
               \<and> map ?f rs ! j = (rs ! j)(''season'' \<mapsto> PStr s, ''episode'' \<mapsto> PStr e)))
        \<and> ((\<forall>i s e. \<not> SE_match_at (title_text (rs ! j)) i s e) \<longrightarrow>
             map ?f rs ! j = (rs ! j)(''season'' \<mapsto> PNone, ''episode'' \<mapsto> PNone))
        \<and> ((dict_get (map ?f rs ! j) ''season'' = PNone) = (dict_get (map ?f rs ! j) ''episode'' = PNone))"
      unfolding n by (rule annotate_props)
  qed
  show ?thesis
    by (rule exI [of _ "map ?f rs"], rule conjI, rule d, rule conjI, rule l, rule per)
qed

lemma search_SE_pilot: "search_SE ''Show S1/E03 - Pilot'' = Some (''1'', ''03'')"
  by (simp add: match_SE_def is_digit_def)

lemma search_SE_trailer: "search_SE ''Trailer'' = None"
  by (simp add: match_SE_def)

theorem season_episode_from_first_match_witness:
  "determine_season_and_episode [[''title'' \<mapsto> PStr ''Show S1/E03 - Pilot''], [''title'' \<mapsto> PStr ''Trailer'']]
     = Inr [[''title'' \<mapsto> PStr ''Show S1/E03 - Pilot'', ''season'' \<mapsto> PStr ''1'', ''episode'' \<mapsto> PStr ''03''],
            [''title'' \<mapsto> PStr ''Trailer'', ''season'' \<mapsto> PNone, ''episode'' \<mapsto> PNone]]
   \<and> (\<exists>rs'. determine_season_and_episode
               [[''title'' \<mapsto> PStr ''Show S1/E03 - Pilot''], [''title'' \<mapsto> PStr ''Trailer'']] = Inr rs'
           \<and> length rs' = length [[''title'' \<mapsto> PStr ''Show S1/E03 - Pilot''], [''title'' \<mapsto> PStr ''Trailer'']])"
proof -
  let ?rs = "[[''title'' \<mapsto> PStr ''Show S1/E03 - Pilot''], [''title'' \<mapsto> PStr ''Trailer'']]"
  have h: "\<forall>v\<in>set ?rs. v ''title'' \<noteq> Some PNone" by simp
  have e: "determine_season_and_episode ?rs
     = Inr [[''title'' \<mapsto> PStr ''Show S1/E03 - Pilot'', ''season'' \<mapsto> PStr ''1'', ''episode'' \<mapsto> PStr ''03''],
            [''title'' \<mapsto> PStr ''Trailer'', ''season'' \<mapsto> PNone, ''episode'' \<mapsto> PNone]]"
    by (simp add: title_search_def dict_get_default_def search_SE_pilot search_SE_trailer
        del: search_SE.simps)
  from season_episode_from_first_match [OF h]
  have "\<exists>rs'. determine_season_and_episode ?rs = Inr rs' \<and> length rs' = length ?rs"
    by blast
  with e show ?thesis by blast
qed

section \<open>Properties of the file names\<close>
















lemma filename_video_over_limit:
  assumes "v ''video-type'' = Some (PStr VIDEO_TYPE_EPISODE)" and "v ''season'' = Some (PStr s)"
    and "list_all is_digit s" and "max_str_digits < length s"
  shows "filename_video v topic q = Inl ValueError"
proof -
  have "\<forall>n. \<not> int_literal s n"
  proof (intro allI notI)
    fix n assume "int_literal s n"
    then obtain l sg b r where s: "s = l @ sg @ b @ r"
      and l: "list_all is_int_space l" and r: "list_all is_int_space r"
      and sg: "sg = [] \<or> sg = ''+'' \<or> sg = ''-''"
      and lim: "length (filter is_digit b) \<le> max_str_digits"
      unfolding int_literal_def by blast
    from assms(3) s have d: "list_all is_digit l" "list_all is_digit sg" "list_all is_digit r"
      "list_all is_digit b"
      by (simp_all add: list_all_iff)
    from d(1) l have "l = []" by (cases l) (auto dest: digit_not_space)
    moreover from d(3) r have "r = []" by (cases r) (auto dest: digit_not_space)
    moreover from d(2) sg have "sg = []" by (auto simp: sign_not_digit)
    ultimately have "s = b" using s by simp
    moreover from d(4) have "filter is_digit b = b" by (simp add: list_all_iff)
    ultimately show False using lim assms(4) by simp
  qed
  then have "py_int s = None" by (simp add: py_int_None_iff)
  with assms(1,2) show ?thesis
    by (simp add: filename_video_def dict_item_def int_of_pyval_def)
qed

lemma update_video_type_map:
  assumes "\<forall>v\<in>set rs. v ''title'' \<noteq> Some PNone"
  shows "update_video_type rs
         = Inr (map (\<lambda>v. if search_SE (title_text v) \<noteq> None
                          then v(''video-type'' \<mapsto> PStr VIDEO_TYPE_EPISODE)
                          else v(''video-type'' \<mapsto> PStr VIDEO_TYPE_MOVIE)) rs)"
  using assms by (induction rs) (simp_all add: title_search_text)

lemma search_SE_groups:
  assumes "search_SE t = Some (s, e)"
  shows "s \<noteq> [] \<and> list_all is_digit s \<and> e \<noteq> [] \<and> list_all is_digit e"
proof -
  from search_SE_Some [OF assms] obtain i where "SE_match_at t i s e" by blast
  then show ?thesis by (simp add: SE_match_at_def)
qed

text \<open>
  After \<^verbatim>\<open>update_video_type\<close> and \<^verbatim>\<open>determine_season_and_episode\<close>, a record is either
  an \<^verbatim>\<open>episode\<close> whose season and episode are non-empty strings of digits, or a
  \<^verbatim>\<open>movie\<close> whose season and episode are \<^verbatim>\<open>None\<close>.
\<close>

lemma classified_records:
  assumes "\<forall>v\<in>set rs. v ''title'' \<noteq> Some PNone"
  shows "\<exists>rs1 rs2. update_video_type rs = Inr rs1 \<and> determine_season_and_episode rs1 = Inr rs2
           \<and> (\<forall>x\<in>set rs2.
                 (x ''video-type'' = Some (PStr VIDEO_TYPE_EPISODE)
                    \<and> (\<exists>s e. x ''season'' = Some (PStr s) \<and> s \<noteq> [] \<and> list_all is_digit s
                              \<and> x ''episode'' = Some (PStr e) \<and> e \<noteq> [] \<and> list_all is_digit e))
               \<or> (x ''video-type'' = Some (PStr VIDEO_TYPE_MOVIE)
                    \<and> x ''season'' = Some PNone \<and> x ''episode'' = Some PNone))"
proof -
  let ?f = "\<lambda>v::video_info. if search_SE (title_text v) \<noteq> None
                          then v(''video-type'' \<mapsto> PStr VIDEO_TYPE_EPISODE)
                          else v(''video-type'' \<mapsto> PStr VIDEO_TYPE_MOVIE)"
  let ?g = "\<lambda>v::video_info. case search_SE (title_text v) of
                          Some (s, e) \<Rightarrow> v(''season'' \<mapsto> PStr s, ''episode'' \<mapsto> PStr e)
                        | None \<Rightarrow> v(''season'' \<mapsto> PNone, ''episode'' \<mapsto> PNone)"
  have u: "update_video_type rs = Inr (map ?f rs)"
    using assms by (rule update_video_type_map)
  have t: "\<forall>v\<in>set (map ?f rs). v ''title'' \<noteq> Some PNone"
    using assms by auto
  have d: "determine_season_and_episode (map ?f rs) = Inr (map ?g (map ?f rs))"
    using t by (rule determine_map)
  have tt: "\<And>(v::video_info) y. title_text (v(''video-type'' \<mapsto> y)) = title_text v"
    by (simp add: title_text_def)
  have "\<forall>x\<in>set (map ?g (map ?f rs)).
                 (x ''video-type'' = Some (PStr VIDEO_TYPE_EPISODE)
                    \<and> (\<exists>s e. x ''season'' = Some (PStr s) \<and> s \<noteq> [] \<and> list_all is_digit s
                              \<and> x ''episode'' = Some (PStr e) \<and> e \<noteq> [] \<and> list_all is_digit e))
               \<or> (x ''video-type'' = Some (PStr VIDEO_TYPE_MOVIE)
                    \<and> x ''season'' = Some PNone \<and> x ''episode'' = Some PNone)"
  proof
    fix x assume "x \<in> set (map ?g (map ?f rs))"
    then have "x \<in> ?g ` ?f ` set rs" by (simp only: set_map)
    then obtain v where x: "x = ?g (?f v)" by blast
    show "(x ''video-type'' = Some (PStr VIDEO_TYPE_EPISODE)
                    \<and> (\<exists>s e. x ''season'' = Some (PStr s) \<and> s \<noteq> [] \<and> list_all is_digit s
                              \<and> x ''episode'' = Some (PStr e) \<and> e \<noteq> [] \<and> list_all is_digit e))
               \<or> (x ''video-type'' = Some (PStr VIDEO_TYPE_MOVIE)
                    \<and> x ''season'' = Some PNone \<and> x ''episode'' = Some PNone)"
    proof (cases "search_SE (title_text v)")
      case None
      then show ?thesis by (simp add: x tt)
    next
      case (Some g)
      obtain s e where g: "g = (s, e)" by (cases g)
      from Some g have p: "s \<noteq> [] \<and> list_all is_digit s \<and> e \<noteq> [] \<and> list_all is_digit e"
        by (intro search_SE_groups [of "title_text v"]) simp
      with Some g show ?thesis by (simp add: x tt)
    qed
  qed
  with u d show ?thesis by blast
qed




end
